theory Spec2Isabelle
  imports Main "HOL-Library.Word" "HOL-Library.List_Lexorder"
begin

section \<open>The ClaimTrie orchestrator of claimtrie/claimtrie.go\<close>

text \<open>
  The file \<^verbatim>\<open>claimtrie/claimtrie.go\<close> holds the height orchestrator: the struct
  \<^verbatim>\<open>ClaimTrie\<close> with its four collaborators (block repo, temporal repo, node manager,
  Merkle trie), the change submitters, \<^verbatim>\<open>AppendBlock\<close>, \<^verbatim>\<open>ResetHeight\<close>,
  \<^verbatim>\<open>MerkleHash\<close> and \<^verbatim>\<open>removeDuplicates\<close>. The collaborators are Go interface
  values whose implementations live in other packages; here each interface is a record of
  its methods, every method a function on the state \<open>'w\<close> of everything behind the
  interfaces (the four key-value namespaces, the node cache, the trie), so that the
  orchestrator is verified for every implementation of them.
\<close>

subsection \<open>Values\<close>

type_synonym int32 = "32 word"
type_synonym int64 = "64 word"
type_synonym byte = "8 word"

text \<open>A name is a Go \<^verbatim>\<open>[]byte\<close>; a hash is a \<^verbatim>\<open>chainhash.Hash\<close>, 32 bytes.\<close>

type_synonym name = "byte list"
type_synonym hash = "256 word"

text \<open>
  Go's \<^verbatim>\<open>int32\<close> is signed: \<open>+\<close> on \<open>32 word\<close> wraps around as \<^verbatim>\<open>ct.height++\<close>
  does, and the comparisons of the source are the signed ones, \<open>\<le>s\<close> and \<open><s\<close>.
\<close>

definition MaxInt32 :: int32 where
  "MaxInt32 = 0x7FFFFFFF"

text \<open>
  A Go slice is \<^verbatim>\<open>nil\<close> or holds a list of elements, which may be empty: \<open>None\<close> is
  \<^verbatim>\<open>nil\<close>. \<open>elems\<close> are the elements that \<^verbatim>\<open>len\<close>, \<^verbatim>\<open>range\<close> and indexing
  see. \<^verbatim>\<open>append(s, xs...)\<close> with nothing to append returns \<open>s\<close> as it is, so
  \<^verbatim>\<open>nil\<close> stays \<^verbatim>\<open>nil\<close>; with something to append the result is not \<^verbatim>\<open>nil\<close>.
\<close>

type_synonym 'a slice = "'a list option"

definition elems :: "'a slice \<Rightarrow> 'a list" where
  "elems s = (case s of None \<Rightarrow> [] | Some xs \<Rightarrow> xs)"

definition append_slice :: "'a slice \<Rightarrow> 'a list \<Rightarrow> 'a slice" where
  "append_slice s xs = (if xs = [] then s else Some (elems s @ xs))"

text \<open>
  Errors are values. A collaborator may return any error; the orchestrator wraps it
  (\<^verbatim>\<open>errors.Wrap\<close>, \<^verbatim>\<open>fmt.Errorf\<close> with \<^verbatim>\<open>%w\<close>) or makes one of its own
  (\<^verbatim>\<open>errors.Errorf\<close> at lines 131 and 319).
\<close>

datatype error =
    External string
  | Wrap error string
  | UnableToRestoreClaimHash hash int32
  | UnableToRestoreHash int32

text \<open>
  \<^verbatim>\<open>change.Change\<close>, with the fields the orchestrator sets. A field the struct literal
  leaves out has Go's zero value.
\<close>

datatype ChangeType = AddClaimT | SpendClaimT | UpdateClaimT | AddSupportT | SpendSupportT

record OutPoint =
  Hash :: hash
  Index :: "32 word"

type_synonym ClaimID = "160 word"

record Change =
  Type :: ChangeType
  Height :: int32
  Name :: name
  ClaimID :: ClaimID
  OutPoint :: OutPoint
  Amount :: int64

subsection \<open>The collaborators\<close>

text \<open>
  \<^verbatim>\<open>block.Repo\<close>, \<^verbatim>\<open>temporal.Repo\<close>, \<^verbatim>\<open>node.Manager\<close> and
  \<^verbatim>\<open>merkletrie.MerkleTrie\<close>: the methods the orchestrator calls. A method that
  returns \<^verbatim>\<open>(value, error)\<close> returns a sum, \<open>Inl\<close> the error; a method that returns
  only an \<^verbatim>\<open>error\<close> returns an option, \<open>None\<close> being \<^verbatim>\<open>nil\<close>. Every method may
  change the state behind the interfaces, also when it fails.

  Two slices of names can be \<^verbatim>\<open>nil\<close> where a collaborator can tell: the one
  \<^verbatim>\<open>IncrementHeightTo\<close> returns, which \<^verbatim>\<open>AppendBlock\<close> hands on to \<^verbatim>\<open>SetRoot\<close>
  (lines 211 to 254), and the second argument of \<^verbatim>\<open>SetRoot\<close>, which the source also
  sets to \<^verbatim>\<open>nil\<close> on purpose (lines 127 and 314). The other slices are lists: what
  \<^verbatim>\<open>NodesAt\<close> returns is read only through \<^verbatim>\<open>len\<close> and as the appended part of
  an \<^verbatim>\<open>append\<close> (lines 223, 229 and 299), which do not tell \<^verbatim>\<open>nil\<close> from an empty
  slice, and the slices given to \<^verbatim>\<open>SetNodesAt\<close> and \<^verbatim>\<open>DecrementHeightTo\<close> come
  from \<^verbatim>\<open>make\<close> (lines 223, 224 and 293) and are never \<^verbatim>\<open>nil\<close>. A slice is
  handed over by value: a collaborator that kept the array of a slice it returned does
  not see here that \<^verbatim>\<open>removeDuplicates\<close> sorts it in place.
\<close>

record 'w block_Repo =
  block_Load :: "'w \<Rightarrow> (error + int32) \<times> 'w"
  block_Get :: "int32 \<Rightarrow> 'w \<Rightarrow> (error + hash) \<times> 'w"
  block_Set :: "int32 \<Rightarrow> hash \<Rightarrow> 'w \<Rightarrow> error option \<times> 'w"

record 'w temporal_Repo =
  temporal_NodesAt :: "int32 \<Rightarrow> 'w \<Rightarrow> (error + name list) \<times> 'w"
  temporal_SetNodesAt :: "name list \<Rightarrow> int32 list \<Rightarrow> 'w \<Rightarrow> error option \<times> 'w"

text \<open>
  \<^verbatim>\<open>IterateNames\<close> takes a callback in the source. Modelled from the spec
  (\<^verbatim>\<open>iterate_names(callback)\<close>, used for the fork-height full rehash): the manager
  hands over the names it visits, in its order; the only callback of the orchestrator
  (line 268) returns true on every name, so it runs on each of them.
\<close>

record 'w node_Manager =
  node_AppendChange :: "Change \<Rightarrow> 'w \<Rightarrow> error option \<times> 'w"
  node_IncrementHeightTo :: "int32 \<Rightarrow> 'w \<Rightarrow> (error + name slice) \<times> 'w"
  node_DecrementHeightTo :: "name list \<Rightarrow> int32 \<Rightarrow> 'w \<Rightarrow> error option \<times> 'w"
  node_NextUpdateHeightOfNode :: "name \<Rightarrow> 'w \<Rightarrow> (name \<times> int32) \<times> 'w"
  node_IterateNames :: "'w \<Rightarrow> name list \<times> 'w"

record 'w merkle_Trie =
  trie_Update :: "name \<Rightarrow> bool \<Rightarrow> 'w \<Rightarrow> 'w"
  trie_SetRoot :: "hash \<Rightarrow> name slice \<Rightarrow> 'w \<Rightarrow> 'w"
  trie_MerkleHash :: "'w \<Rightarrow> hash \<times> 'w"
  trie_MerkleHashAllClaims :: "'w \<Rightarrow> hash \<times> 'w"

subsection \<open>The struct\<close>

record 'w ClaimTrie =
  blockRepo :: "'w block_Repo"
  temporalRepo :: "'w temporal_Repo"
  nodeManager :: "'w node_Manager"
  merkleTrie :: "'w merkle_Trie"
  height :: int32
  cleanups :: "('w \<Rightarrow> error option \<times> 'w) list"

subsection \<open>removeDuplicates\<close>

text \<open>\<^verbatim>\<open>bytes.Compare\<close> of Go's standard library: lexicographic on unsigned bytes.\<close>

fun bytes_Compare :: "name \<Rightarrow> name \<Rightarrow> int" where
  "bytes_Compare [] [] = 0"
| "bytes_Compare [] (y # ys) = -1"
| "bytes_Compare (x # xs) [] = 1"
| "bytes_Compare (x # xs) (y # ys) =
     (if x < y then -1 else if y < x then 1 else bytes_Compare xs ys)"

definition bytes_Equal :: "name \<Rightarrow> name \<Rightarrow> bool" where
  "bytes_Equal a b = (a = b)"

text \<open>
  \<^verbatim>\<open>sort.Slice\<close> of Go's standard library sorts in place by the caller's function
  \<open>lt\<close> (\<^verbatim>\<open>less\<close> in Go); its algorithm is not fixed and it is not stable. It
  is modelled by insertion with \<open>lt\<close>. With the function of line 279 two names
  neither of which is less than the other are equal byte strings, so every sorting
  algorithm returns this list.
\<close>

fun sort_insert :: "('a \<Rightarrow> 'a \<Rightarrow> bool) \<Rightarrow> 'a \<Rightarrow> 'a list \<Rightarrow> 'a list" where
  "sort_insert lt x [] = [x]"
| "sort_insert lt x (y # ys) =
     (if lt y x then y # sort_insert lt x ys else x # y # ys)"

definition sort_Slice :: "('a \<Rightarrow> 'a \<Rightarrow> bool) \<Rightarrow> 'a list \<Rightarrow> 'a list" where
  "sort_Slice lt names = foldr (sort_insert lt) names []"

text \<open>
  The loop of lines 282 to 286. \<open>removeLoop (Suc i) names\<close> runs the iterations
  \<open>i, i - 1, \<dots>, 0\<close> on the slice \<open>names\<close>; \<^verbatim>\<open>append(names[:i], names[i+1:]...)\<close>
  is \<open>take i names @ drop (Suc i) names\<close>. An index out of range panics in Go: the
  result \<open>None\<close>.
\<close>

fun removeLoop :: "nat \<Rightarrow> name list \<Rightarrow> name list option" where
  "removeLoop 0 names = Some names"
| "removeLoop (Suc i) names =
     (if Suc i < length names then
        removeLoop i
          (if bytes_Equal (names ! i) (names ! Suc i)
           then take i names @ drop (Suc i) names else names)
      else None)"

definition removeDuplicates_panics :: "name list \<Rightarrow> name list option" where
  "removeDuplicates_panics names =
     (let names = sort_Slice (\<lambda>a b. bytes_Compare a b < 0) names
      in removeLoop (length names - 1) names)"

text \<open>
  The loop never reads out of range (lemma \<open>removeDuplicates_no_panic\<close> below), so the
  callers use the function without the panic.
\<close>

fun removeLoop_total :: "nat \<Rightarrow> name list \<Rightarrow> name list" where
  "removeLoop_total 0 names = names"
| "removeLoop_total (Suc i) names =
     removeLoop_total i
       (if bytes_Equal (names ! i) (names ! Suc i)
        then take i names @ drop (Suc i) names else names)"

definition removeDuplicates :: "name list \<Rightarrow> name list" where
  "removeDuplicates names =
     (let names = sort_Slice (\<lambda>a b. bytes_Compare a b < 0) names
      in removeLoop_total (length names - 1) names)"

text \<open>
  \<^verbatim>\<open>removeDuplicates\<close> on a slice that may be \<^verbatim>\<open>nil\<close>. On \<^verbatim>\<open>nil\<close> there is
  nothing to sort, the loop does not run and \<^verbatim>\<open>nil\<close> is returned. On another slice
  the result is not \<^verbatim>\<open>nil\<close>: it is the slice itself, or an \<^verbatim>\<open>append\<close> to a part
  \<^verbatim>\<open>names[:i]\<close> of it.
\<close>

definition removeDuplicates_slice :: "name slice \<Rightarrow> name slice" where
  "removeDuplicates_slice names = map_option removeDuplicates names"

subsection \<open>The orchestrator\<close>

text \<open>
  \<^verbatim>\<open>param.AllClaimsInMerkleForkHeight\<close> is a variable of the package \<^verbatim>\<open>param\<close>,
  set per network: the argument \<open>fork\<close> of the functions that read it.
\<close>

definition MerkleHash :: "int32 \<Rightarrow> 'w ClaimTrie \<Rightarrow> 'w \<Rightarrow> hash \<times> 'w" where
  "MerkleHash fork ct w =
     (if fork \<le>s height ct then trie_MerkleHashAllClaims (merkleTrie ct) w
      else trie_MerkleHash (merkleTrie ct) w)"

definition ClaimTrie_Height :: "'w ClaimTrie \<Rightarrow> int32" where
  "ClaimTrie_Height ct = height ct"

text \<open>\<^verbatim>\<open>Close\<close> runs the cleanups in reverse order; an error is logged and dropped.\<close>

definition Close :: "'w ClaimTrie \<Rightarrow> 'w \<Rightarrow> 'w" where
  "Close ct w = fold (\<lambda>cleanup w. snd (cleanup w)) (rev (cleanups ct)) w"

text \<open>
  A method with the pointer receiver \<^verbatim>\<open>ct\<close> returns its error, the struct as it
  leaves it, and the state behind the interfaces.
\<close>

definition forwardNodeChange ::
  "'w ClaimTrie \<Rightarrow> Change \<Rightarrow> 'w \<Rightarrow> error option \<times> 'w ClaimTrie \<times> 'w" where
  "forwardNodeChange ct chg w =
     (let chg = chg\<lparr>Height := ClaimTrie_Height ct + 1\<rparr>
      in case node_AppendChange (nodeManager ct) chg w of
           (Some err, w') \<Rightarrow> (Some (Wrap err ''node manager handle change''), ct, w')
         | (None, w') \<Rightarrow> (None, ct, w'))"

text \<open>The zero values of the fields a struct literal leaves out.\<close>

definition zero_Change :: Change where
  "zero_Change =
     \<lparr>Type = AddClaimT, Height = 0, Name = [], ClaimID = 0,
      OutPoint = \<lparr>Hash = 0, Index = 0\<rparr>, Amount = 0\<rparr>"

definition AddClaim ::
  "'w ClaimTrie \<Rightarrow> name \<Rightarrow> OutPoint \<Rightarrow> ClaimID \<Rightarrow> int64 \<Rightarrow> 'w
     \<Rightarrow> error option \<times> 'w ClaimTrie \<times> 'w" where
  "AddClaim ct name op cid amt w =
     forwardNodeChange ct
       (zero_Change\<lparr>Type := AddClaimT, Name := name, OutPoint := op, Amount := amt,
          ClaimID := cid\<rparr>) w"

definition UpdateClaim ::
  "'w ClaimTrie \<Rightarrow> name \<Rightarrow> OutPoint \<Rightarrow> int64 \<Rightarrow> ClaimID \<Rightarrow> 'w
     \<Rightarrow> error option \<times> 'w ClaimTrie \<times> 'w" where
  "UpdateClaim ct name op amt cid w =
     forwardNodeChange ct
       (zero_Change\<lparr>Type := UpdateClaimT, Name := name, OutPoint := op, Amount := amt,
          ClaimID := cid\<rparr>) w"

definition SpendClaim ::
  "'w ClaimTrie \<Rightarrow> name \<Rightarrow> OutPoint \<Rightarrow> ClaimID \<Rightarrow> 'w
     \<Rightarrow> error option \<times> 'w ClaimTrie \<times> 'w" where
  "SpendClaim ct name op cid w =
     forwardNodeChange ct
       (zero_Change\<lparr>Type := SpendClaimT, Name := name, OutPoint := op, ClaimID := cid\<rparr>) w"

definition AddSupport ::
  "'w ClaimTrie \<Rightarrow> name \<Rightarrow> OutPoint \<Rightarrow> int64 \<Rightarrow> ClaimID \<Rightarrow> 'w
     \<Rightarrow> error option \<times> 'w ClaimTrie \<times> 'w" where
  "AddSupport ct name op amt cid w =
     forwardNodeChange ct
       (zero_Change\<lparr>Type := AddSupportT, Name := name, OutPoint := op, Amount := amt,
          ClaimID := cid\<rparr>) w"

definition SpendSupport ::
  "'w ClaimTrie \<Rightarrow> name \<Rightarrow> OutPoint \<Rightarrow> ClaimID \<Rightarrow> 'w
     \<Rightarrow> error option \<times> 'w ClaimTrie \<times> 'w" where
  "SpendSupport ct name op cid w =
     forwardNodeChange ct
       (zero_Change\<lparr>Type := SpendSupportT, Name := name, OutPoint := op, ClaimID := cid\<rparr>) w"

text \<open>
  The loop of lines 232 to 242 over \<open>names\<close>, carrying the two batch slices and the
  state.
\<close>

fun updateLoop ::
  "'w ClaimTrie \<Rightarrow> name list \<Rightarrow> name list \<Rightarrow> int32 list \<Rightarrow> 'w
     \<Rightarrow> name list \<times> int32 list \<times> 'w" where
  "updateLoop ct [] updateNames updateHeights w = (updateNames, updateHeights, w)"
| "updateLoop ct (name # names) updateNames updateHeights w =
     (let w = trie_Update (merkleTrie ct) name True w;
          ((newName, nextUpdate), w) = node_NextUpdateHeightOfNode (nodeManager ct) name w
      in if nextUpdate \<le>s 0 then updateLoop ct names updateNames updateHeights w
         else updateLoop ct names (updateNames @ [newName]) (updateHeights @ [nextUpdate]) w)"

definition updateTrieForHashForkIfNecessary ::
  "int32 \<Rightarrow> 'w ClaimTrie \<Rightarrow> 'w \<Rightarrow> bool \<times> 'w" where
  "updateTrieForHashForkIfNecessary fork ct w =
     (if height ct \<noteq> fork then (False, w)
      else
        (let (visited, w) = node_IterateNames (nodeManager ct) w;
             w = fold (\<lambda>name w. trie_Update (merkleTrie ct) name False w) visited w
         in (True, w)))"

text \<open>
  \<^verbatim>\<open>AppendBlock\<close>. The slice \<open>names\<close> is the one \<^verbatim>\<open>IncrementHeightTo\<close> returned,
  through \<^verbatim>\<open>removeDuplicates\<close> (lines 221 and 230) and \<^verbatim>\<open>append\<close> (line 229), and
  reaches \<^verbatim>\<open>SetRoot\<close> at line 254 as it is then: \<^verbatim>\<open>nil\<close> when the manager returned
  \<^verbatim>\<open>nil\<close> and the temporal repo listed no name. The batch slices of lines 223 and 224
  come from \<^verbatim>\<open>make\<close>. The result of \<^verbatim>\<open>blockRepo.Set\<close> at line 251 is not bound to
  anything.
\<close>

definition AppendBlock ::
  "int32 \<Rightarrow> 'w ClaimTrie \<Rightarrow> 'w \<Rightarrow> error option \<times> 'w ClaimTrie \<times> 'w" where
  "AppendBlock fork ct w =
     (let ct = ct\<lparr>height := height ct + 1\<rparr>
      in case node_IncrementHeightTo (nodeManager ct) (height ct) w of
           (Inl err, w) \<Rightarrow> (Some (Wrap err ''node manager increment''), ct, w)
         | (Inr names, w) \<Rightarrow>
       (case temporal_NodesAt (temporalRepo ct) (height ct) w of
           (Inl err, w) \<Rightarrow> (Some (Wrap err ''temporal repo get''), ct, w)
         | (Inr expirations, w) \<Rightarrow>
       (let names = removeDuplicates_slice names;
            updateNames = elems names;
            updateHeights = map (\<lambda>_. height ct) (elems names);
            names = append_slice names expirations;
            names = removeDuplicates_slice names;
            (updateNames, updateHeights, w) =
              updateLoop ct (elems names) updateNames updateHeights w
        in case temporal_SetNodesAt (temporalRepo ct) updateNames updateHeights w of
             (Some err, w) \<Rightarrow> (Some (Wrap err ''temporal repo set''), ct, w)
           | (None, w) \<Rightarrow>
         (let (hitFork, w) = updateTrieForHashForkIfNecessary fork ct w;
              (h, w) = MerkleHash fork ct w;
              (_, w) = block_Set (blockRepo ct) (height ct) h w;
              w = (if hitFork then trie_SetRoot (merkleTrie ct) h names w else w)
          in (None, ct, w)))))"

text \<open>
  The loop of lines 294 to 300. When \<open>ct.height\<close> is the largest \<^verbatim>\<open>int32\<close> the
  condition \<^verbatim>\<open>h <= ct.height\<close> never fails and \<^verbatim>\<open>h++\<close> wraps around, so the loop
  ends only on an error of \<^verbatim>\<open>NodesAt\<close>: not returning is the value \<open>None\<close>.
\<close>

partial_function (option) resetLoop ::
  "'w ClaimTrie \<Rightarrow> int32 \<Rightarrow> name list \<Rightarrow> 'w \<Rightarrow> ((error + name list) \<times> 'w) option" where
  "resetLoop ct h names w =
     (if h \<le>s height ct then
        (case temporal_NodesAt (temporalRepo ct) h w of
           (Inl err, w) \<Rightarrow> Some (Inl err, w)
         | (Inr results, w) \<Rightarrow> resetLoop ct (h + 1) (names @ results) w)
      else Some (Inr names, w))"

declare resetLoop.simps [code]

definition ResetHeight ::
  "int32 \<Rightarrow> 'w ClaimTrie \<Rightarrow> int32 \<Rightarrow> 'w \<Rightarrow> (error option \<times> 'w ClaimTrie \<times> 'w) option" where
  "ResetHeight fork ct target w =
     (case resetLoop ct (target + 1) [] w of
        None \<Rightarrow> None
      | Some (Inl err, w) \<Rightarrow> Some (Some err, ct, w)
      | Some (Inr names, w) \<Rightarrow>
        (case node_DecrementHeightTo (nodeManager ct) names target w of
           (Some err, w) \<Rightarrow> Some (Some err, ct, w)
         | (None, w) \<Rightarrow>
           (let passedHashFork = (fork \<le>s height ct \<and> target <s fork);
                ct = ct\<lparr>height := target\<rparr>
            in case block_Get (blockRepo ct) target w of
                 (Inl err, w) \<Rightarrow> Some (Some err, ct, w)
               | (Inr hash, w) \<Rightarrow>
                 (let w = trie_SetRoot (merkleTrie ct) hash
                            (if passedHashFork then None else Some names) w;
                      (h, w) = MerkleHash fork ct w
                  in if h \<noteq> hash then Some (Some (UnableToRestoreHash target), ct, w)
                     else Some (None, ct, w)))))"

text \<open>
  \<^verbatim>\<open>New\<close> from line 97 on. Lines 55 to 95 open the repos, the manager and the trie
  from the configuration and register their cleanups: these are the arguments here.
\<close>

definition New ::
  "int32 \<Rightarrow> 'w block_Repo \<Rightarrow> 'w temporal_Repo \<Rightarrow> 'w node_Manager \<Rightarrow> 'w merkle_Trie
     \<Rightarrow> ('w \<Rightarrow> error option \<times> 'w) list \<Rightarrow> 'w \<Rightarrow> (error + 'w ClaimTrie) \<times> 'w" where
  "New fork blockRepo' temporalRepo' nodeManager' trie cleanups' w =
     (case block_Load blockRepo' w of
        (Inl err, w) \<Rightarrow> (Inl (Wrap err ''load block tip''), w)
      | (Inr previousHeight, w) \<Rightarrow>
        (let ct = \<lparr>blockRepo = blockRepo', temporalRepo = temporalRepo',
                   nodeManager = nodeManager', merkleTrie = trie,
                   height = previousHeight, cleanups = cleanups'\<rparr>
         in if 0 <s previousHeight then
              (case block_Get blockRepo' previousHeight w of
                 (Inl err, w) \<Rightarrow> (Inl (Wrap err ''block repo get''), Close ct w)
               | (Inr hash, w) \<Rightarrow>
                 (case node_IncrementHeightTo nodeManager' previousHeight w of
                    (Inl err, w) \<Rightarrow> (Inl (Wrap err ''increment height to''), Close ct w)
                  | (Inr _, w) \<Rightarrow>
                    (let w = trie_SetRoot trie hash None w;
                         (h, w) = MerkleHash fork ct w
                     in if h \<noteq> hash
                        then (Inl (UnableToRestoreClaimHash hash previousHeight), Close ct w)
                        else (Inr ct, w))))
            else (Inr ct, w)))"

subsection \<open>Observing the calls\<close>

text \<open>
  A claim about which collaborator is called, with what and in which order, is a claim
  about the sequence of calls of a run. \<open>recording ct\<close> is \<open>ct\<close> with every method of
  its collaborators wrapped: the method runs as before and the call, with its arguments
  and its result, is appended to a log kept beside the state. The orchestrator's
  functions are not changed for this: they run on \<open>recording ct\<close> as on any \<open>ct\<close>.
\<close>

datatype call =
    Call_Load "error + int32"
  | Call_Get int32 "error + hash"
  | Call_Set int32 hash "error option"
  | Call_NodesAt int32 "error + name list"
  | Call_SetNodesAt "name list" "int32 list" "error option"
  | Call_AppendChange Change "error option"
  | Call_IncrementHeightTo int32 "error + name slice"
  | Call_DecrementHeightTo "name list" int32 "error option"
  | Call_NextUpdateHeightOfNode name "name \<times> int32"
  | Call_IterateNames "name list"
  | Call_Update name bool
  | Call_SetRoot hash "name slice"
  | Call_MerkleHash hash
  | Call_MerkleHashAllClaims hash

definition logged ::
  "('r \<Rightarrow> call) \<Rightarrow> ('w \<Rightarrow> 'r \<times> 'w) \<Rightarrow> 'w \<times> call list \<Rightarrow> 'r \<times> 'w \<times> call list" where
  "logged ev f = (\<lambda>(w, tr). case f w of (r, w') \<Rightarrow> (r, w', tr @ [ev r]))"

definition logged_void ::
  "call \<Rightarrow> ('w \<Rightarrow> 'w) \<Rightarrow> 'w \<times> call list \<Rightarrow> 'w \<times> call list" where
  "logged_void ev f = (\<lambda>(w, tr). (f w, tr @ [ev]))"

definition unlogged :: "('w \<Rightarrow> 'r \<times> 'w) \<Rightarrow> 'w \<times> call list \<Rightarrow> 'r \<times> 'w \<times> call list" where
  "unlogged f = (\<lambda>(w, tr). case f w of (r, w') \<Rightarrow> (r, w', tr))"

definition recording_block :: "'w block_Repo \<Rightarrow> ('w \<times> call list) block_Repo" where
  "recording_block r =
     \<lparr>block_Load = logged Call_Load (block_Load r),
      block_Get = (\<lambda>h. logged (Call_Get h) (block_Get r h)),
      block_Set = (\<lambda>h x. logged (Call_Set h x) (block_Set r h x))\<rparr>"

definition recording_temporal :: "'w temporal_Repo \<Rightarrow> ('w \<times> call list) temporal_Repo" where
  "recording_temporal r =
     \<lparr>temporal_NodesAt = (\<lambda>h. logged (Call_NodesAt h) (temporal_NodesAt r h)),
      temporal_SetNodesAt =
        (\<lambda>ns hs. logged (Call_SetNodesAt ns hs) (temporal_SetNodesAt r ns hs))\<rparr>"

definition recording_node :: "'w node_Manager \<Rightarrow> ('w \<times> call list) node_Manager" where
  "recording_node m =
     \<lparr>node_AppendChange = (\<lambda>chg. logged (Call_AppendChange chg) (node_AppendChange m chg)),
      node_IncrementHeightTo =
        (\<lambda>h. logged (Call_IncrementHeightTo h) (node_IncrementHeightTo m h)),
      node_DecrementHeightTo =
        (\<lambda>ns h. logged (Call_DecrementHeightTo ns h) (node_DecrementHeightTo m ns h)),
      node_NextUpdateHeightOfNode =
        (\<lambda>n. logged (Call_NextUpdateHeightOfNode n) (node_NextUpdateHeightOfNode m n)),
      node_IterateNames = logged Call_IterateNames (node_IterateNames m)\<rparr>"

definition recording_trie :: "'w merkle_Trie \<Rightarrow> ('w \<times> call list) merkle_Trie" where
  "recording_trie t =
     \<lparr>trie_Update = (\<lambda>n b. logged_void (Call_Update n b) (trie_Update t n b)),
      trie_SetRoot = (\<lambda>h ns. logged_void (Call_SetRoot h ns) (trie_SetRoot t h ns)),
      trie_MerkleHash = logged Call_MerkleHash (trie_MerkleHash t),
      trie_MerkleHashAllClaims = logged Call_MerkleHashAllClaims (trie_MerkleHashAllClaims t)\<rparr>"

definition recording :: "'w ClaimTrie \<Rightarrow> ('w \<times> call list) ClaimTrie" where
  "recording ct =
     \<lparr>blockRepo = recording_block (blockRepo ct),
      temporalRepo = recording_temporal (temporalRepo ct),
      nodeManager = recording_node (nodeManager ct),
      merkleTrie = recording_trie (merkleTrie ct),
      height = height ct,
      cleanups = map unlogged (cleanups ct)\<rparr>"

text \<open>The parts of a method's result \<open>(error, struct, state, log)\<close>.\<close>

definition err_of :: "'e \<times> 'c \<times> 'w \<Rightarrow> 'e" where
  "err_of r = fst r"

definition ct_of :: "'e \<times> 'c \<times> 'w \<Rightarrow> 'c" where
  "ct_of r = fst (snd r)"

definition state_of :: "'e \<times> 'c \<times> 'w \<Rightarrow> 'w" where
  "state_of r = snd (snd r)"

definition calls_of :: "'e \<times> 'c \<times> 'w \<times> call list \<Rightarrow> call list" where
  "calls_of r = snd (snd (snd r))"

subsection \<open>Reading a log\<close>

text \<open>
  What a log says about a run: the names handed to \<^verbatim>\<open>Update(name, true)\<close>, the
  batches handed to \<^verbatim>\<open>SetNodesAt\<close>, the names \<^verbatim>\<open>IncrementHeightTo\<close> returned
  (and the slices themselves), the lists \<^verbatim>\<open>NodesAt\<close> returned, the names \<^verbatim>\<open>NextUpdateHeightOfNode\<close> was
  asked about and the pairs it answered with a height above 0.
\<close>

fun updated_name :: "call \<Rightarrow> name list" where
  "updated_name (Call_Update n b) = (if b then [n] else [])"
| "updated_name c = []"

definition updated_names :: "call list \<Rightarrow> name list" where
  "updated_names tr = concat (map updated_name tr)"

fun batch_of_call :: "call \<Rightarrow> (name list \<times> int32 list) list" where
  "batch_of_call (Call_SetNodesAt ns hs e) = [(ns, hs)]"
| "batch_of_call c = []"

definition batches :: "call list \<Rightarrow> (name list \<times> int32 list) list" where
  "batches tr = concat (map batch_of_call tr)"

fun touched_by_call :: "call \<Rightarrow> name list" where
  "touched_by_call (Call_IncrementHeightTo h (Inr ns)) = elems ns"
| "touched_by_call c = []"

definition touched_names :: "call list \<Rightarrow> name list" where
  "touched_names tr = concat (map touched_by_call tr)"

fun returned_by_call :: "call \<Rightarrow> name slice list" where
  "returned_by_call (Call_IncrementHeightTo h (Inr ns)) = [ns]"
| "returned_by_call c = []"

definition returned :: "call list \<Rightarrow> name slice list" where
  "returned tr = concat (map returned_by_call tr)"

fun expirations_of_call :: "call \<Rightarrow> name list list" where
  "expirations_of_call (Call_NodesAt h (Inr ns)) = [ns]"
| "expirations_of_call c = []"

definition expirations_of :: "call list \<Rightarrow> name list list" where
  "expirations_of tr = concat (map expirations_of_call tr)"

fun scheduled_by_call :: "call \<Rightarrow> (name \<times> int32) list" where
  "scheduled_by_call (Call_NextUpdateHeightOfNode n (newName, nextUpdate)) =
     (if nextUpdate \<le>s 0 then [] else [(newName, nextUpdate)])"
| "scheduled_by_call c = []"

definition scheduled :: "call list \<Rightarrow> (name \<times> int32) list" where
  "scheduled tr = concat (map scheduled_by_call tr)"

fun asked_by_call :: "call \<Rightarrow> name list" where
  "asked_by_call (Call_NextUpdateHeightOfNode n r) = [n]"
| "asked_by_call c = []"

definition asked :: "call list \<Rightarrow> name list" where
  "asked tr = concat (map asked_by_call tr)"

text \<open>
  The slice \<open>names\<close> of \<^verbatim>\<open>AppendBlock\<close> as it is at line 254, from the results of
  the two fetches in the log: the slice \<^verbatim>\<open>IncrementHeightTo\<close> returned, through
  \<^verbatim>\<open>removeDuplicates\<close> (line 221), \<^verbatim>\<open>append\<close> of what \<^verbatim>\<open>NodesAt\<close> returned
  (line 229) and \<^verbatim>\<open>removeDuplicates\<close> (line 230). It is \<^verbatim>\<open>nil\<close> when the manager
  returned \<^verbatim>\<open>nil\<close> and the temporal repo listed nothing (and in a run without the two
  results, which does not reach line 254).
\<close>

definition block_names :: "call list \<Rightarrow> name slice" where
  "block_names tr =
     (case (returned tr, expirations_of tr) of
        (ns # rs, ex # exs) \<Rightarrow>
          removeDuplicates_slice (append_slice (removeDuplicates_slice ns) ex)
      | _ \<Rightarrow> None)"

text \<open>
  The calls \<^verbatim>\<open>AppendBlock\<close> makes from line 248 on, and those of the fork sweep among
  them: everything but the three fetches and writes of the temporal batch and the
  per-name calls of the loop of line 232.
\<close>

fun is_finishing :: "call \<Rightarrow> bool" where
  "is_finishing (Call_IterateNames ns) = True"
| "is_finishing (Call_Update n b) = (\<not> b)"
| "is_finishing (Call_MerkleHash h) = True"
| "is_finishing (Call_MerkleHashAllClaims h) = True"
| "is_finishing (Call_Set h r e) = True"
| "is_finishing (Call_SetRoot h ns) = True"
| "is_finishing c = False"

fun is_Set :: "call \<Rightarrow> bool" where
  "is_Set (Call_Set h r e) = True"
| "is_Set c = False"

text \<open>
  A call that failed, with its error. The error of \<^verbatim>\<open>blockRepo.Set\<close> is left out:
  the orchestrator never looks at it. \<open>wrapped\<close> is what \<^verbatim>\<open>AppendBlock\<close> returns
  for a failed call (lines 213, 218 and 245).
\<close>

fun failed :: "call \<Rightarrow> error option" where
  "failed (Call_Load (Inl e)) = Some e"
| "failed (Call_Get h (Inl e)) = Some e"
| "failed (Call_NodesAt h (Inl e)) = Some e"
| "failed (Call_SetNodesAt ns hs (Some e)) = Some e"
| "failed (Call_AppendChange chg (Some e)) = Some e"
| "failed (Call_IncrementHeightTo h (Inl e)) = Some e"
| "failed (Call_DecrementHeightTo ns h (Some e)) = Some e"
| "failed c = None"

definition failed_calls :: "call list \<Rightarrow> call list" where
  "failed_calls tr = filter (\<lambda>c. failed c \<noteq> None) tr"

fun wrapped :: "call \<Rightarrow> error option" where
  "wrapped (Call_IncrementHeightTo h (Inl e)) = Some (Wrap e ''node manager increment'')"
| "wrapped (Call_NodesAt h (Inl e)) = Some (Wrap e ''temporal repo get'')"
| "wrapped (Call_SetNodesAt ns hs (Some e)) = Some (Wrap e ''temporal repo set'')"
| "wrapped c = None"

fun is_Get :: "call \<Rightarrow> bool" where
  "is_Get (Call_Get h r) = True"
| "is_Get c = False"

subsection \<open>The calls of each function\<close>

text \<open>
  The log of a run on \<open>recording ct\<close> is computed here from \<open>ct\<close> itself, function by
  function, following the same path through the code: the lemmas \<open>updateLoop_recording\<close>,
  \<open>AppendBlock_recording\<close> and \<open>resetSteps_recording\<close> below prove that these are the
  logs, and that recording changes neither a result nor the state.
\<close>

definition MerkleHash_call :: "int32 \<Rightarrow> int32 \<Rightarrow> hash \<Rightarrow> call" where
  "MerkleHash_call fork h = (if fork \<le>s h then Call_MerkleHashAllClaims else Call_MerkleHash)"

fun updateLoop_calls :: "'w ClaimTrie \<Rightarrow> name list \<Rightarrow> 'w \<Rightarrow> call list" where
  "updateLoop_calls ct [] w = []"
| "updateLoop_calls ct (name # names) w =
     (let w = trie_Update (merkleTrie ct) name True w;
          (r, w) = node_NextUpdateHeightOfNode (nodeManager ct) name w
      in Call_Update name True # Call_NextUpdateHeightOfNode name r # updateLoop_calls ct names w)"

definition fork_calls :: "int32 \<Rightarrow> 'w ClaimTrie \<Rightarrow> 'w \<Rightarrow> call list" where
  "fork_calls fork ct w =
     (if height ct \<noteq> fork then []
      else
        (let (visited, w) = node_IterateNames (nodeManager ct) w
         in Call_IterateNames visited # map (\<lambda>n. Call_Update n False) visited))"

definition AppendBlock_calls :: "int32 \<Rightarrow> 'w ClaimTrie \<Rightarrow> 'w \<Rightarrow> call list" where
  "AppendBlock_calls fork ct w =
     (let ct = ct\<lparr>height := height ct + 1\<rparr>
      in case node_IncrementHeightTo (nodeManager ct) (height ct) w of
           (Inl err, w) \<Rightarrow> [Call_IncrementHeightTo (height ct) (Inl err)]
         | (Inr names, w) \<Rightarrow> Call_IncrementHeightTo (height ct) (Inr names) #
       (case temporal_NodesAt (temporalRepo ct) (height ct) w of
           (Inl err, w) \<Rightarrow> [Call_NodesAt (height ct) (Inl err)]
         | (Inr expirations, w0) \<Rightarrow> Call_NodesAt (height ct) (Inr expirations) #
       (let names = removeDuplicates_slice names;
            updateNames = elems names;
            updateHeights = map (\<lambda>_. height ct) (elems names);
            names = append_slice names expirations;
            names = removeDuplicates_slice names;
            (updateNames, updateHeights, w) =
              updateLoop ct (elems names) updateNames updateHeights w0
        in updateLoop_calls ct (elems names) w0 @
          (case temporal_SetNodesAt (temporalRepo ct) updateNames updateHeights w of
             (Some err, w) \<Rightarrow> [Call_SetNodesAt updateNames updateHeights (Some err)]
           | (None, w1) \<Rightarrow> Call_SetNodesAt updateNames updateHeights None #
         (let (hitFork, w) = updateTrieForHashForkIfNecessary fork ct w1;
              (h, w) = MerkleHash fork ct w;
              (e, w) = block_Set (blockRepo ct) (height ct) h w
          in fork_calls fork ct w1 @
             [MerkleHash_call fork (height ct) h, Call_Set (height ct) h e] @
             (if hitFork then [Call_SetRoot h names] else []))))))"

text \<open>
  The loop of \<^verbatim>\<open>ResetHeight\<close> with a bound on its iterations, and its calls. When
  \<open>ct.height\<close> is not the largest \<^verbatim>\<open>int32\<close> the loop makes
  \<open>nat (sint (height ct) + 1 - sint h)\<close> iterations (lemma \<open>resetLoop_steps\<close>).
\<close>

fun resetSteps ::
  "'w ClaimTrie \<Rightarrow> nat \<Rightarrow> int32 \<Rightarrow> name list \<Rightarrow> 'w \<Rightarrow> (error + name list) \<times> 'w" where
  "resetSteps ct 0 h names w = (Inr names, w)"
| "resetSteps ct (Suc n) h names w =
     (case temporal_NodesAt (temporalRepo ct) h w of
        (Inl err, w) \<Rightarrow> (Inl err, w)
      | (Inr results, w) \<Rightarrow> resetSteps ct n (h + 1) (names @ results) w)"

fun resetSteps_calls :: "'w ClaimTrie \<Rightarrow> nat \<Rightarrow> int32 \<Rightarrow> 'w \<Rightarrow> call list" where
  "resetSteps_calls ct 0 h w = []"
| "resetSteps_calls ct (Suc n) h w =
     (case temporal_NodesAt (temporalRepo ct) h w of
        (Inl err, w) \<Rightarrow> [Call_NodesAt h (Inl err)]
      | (Inr results, w) \<Rightarrow> Call_NodesAt h (Inr results) # resetSteps_calls ct n (h + 1) w)"

text \<open>The heights \<open>h\<close> with \<open>target < h \<le> cur\<close>, in ascending order.\<close>

definition heights_between :: "int32 \<Rightarrow> int32 \<Rightarrow> int32 list" where
  "heights_between target cur = map word_of_int [sint target + 1 .. sint cur]"

subsection \<open>Runs of a sequence of operations\<close>

text \<open>
  A caller submits changes and appends blocks, and reads the Merkle root after every
  block. \<open>run\<close> gives what such a caller observes: the error of every call, and the
  height and the root after every \<^verbatim>\<open>AppendBlock\<close>.
\<close>

datatype operation =
    Op_AddClaim name OutPoint ClaimID int64
  | Op_UpdateClaim name OutPoint int64 ClaimID
  | Op_SpendClaim name OutPoint ClaimID
  | Op_AddSupport name OutPoint int64 ClaimID
  | Op_SpendSupport name OutPoint ClaimID
  | Op_AppendBlock

datatype observation =
    Submitted "error option"
  | Appended "error option" int32 hash

fun step ::
  "int32 \<Rightarrow> 'w ClaimTrie \<Rightarrow> operation \<Rightarrow> 'w \<Rightarrow> observation \<times> 'w ClaimTrie \<times> 'w" where
  "step fork ct (Op_AddClaim name op cid amt) w =
     (let (e, ct, w) = AddClaim ct name op cid amt w in (Submitted e, ct, w))"
| "step fork ct (Op_UpdateClaim name op amt cid) w =
     (let (e, ct, w) = UpdateClaim ct name op amt cid w in (Submitted e, ct, w))"
| "step fork ct (Op_SpendClaim name op cid) w =
     (let (e, ct, w) = SpendClaim ct name op cid w in (Submitted e, ct, w))"
| "step fork ct (Op_AddSupport name op amt cid) w =
     (let (e, ct, w) = AddSupport ct name op amt cid w in (Submitted e, ct, w))"
| "step fork ct (Op_SpendSupport name op cid) w =
     (let (e, ct, w) = SpendSupport ct name op cid w in (Submitted e, ct, w))"
| "step fork ct Op_AppendBlock w =
     (let (e, ct, w) = AppendBlock fork ct w;
          (root, w) = MerkleHash fork ct w
      in (Appended e (height ct) root, ct, w))"

fun run :: "int32 \<Rightarrow> 'w ClaimTrie \<Rightarrow> operation list \<Rightarrow> 'w \<Rightarrow> observation list" where
  "run fork ct [] w = []"
| "run fork ct (x # xs) w = (let (ob, ct, w) = step fork ct x w in ob # run fork ct xs w)"

text \<open>
  Two results of a call that returns names are the same up to order and repetition, and
  two structs agree when their collaborators differ in nothing but the order and the
  repetitions of the names that \<^verbatim>\<open>IncrementHeightTo\<close> and \<^verbatim>\<open>NodesAt\<close> return
  (a Go map is iterated in no fixed order). Of the slices \<^verbatim>\<open>IncrementHeightTo\<close>
  returns, \<^verbatim>\<open>nil\<close> is the same as \<^verbatim>\<open>nil\<close> only.
\<close>

definition same_names :: "(error + name list) \<times> 'w \<Rightarrow> (error + name list) \<times> 'w \<Rightarrow> bool" where
  "same_names x y =
     (snd x = snd y \<and>
      (case (fst x, fst y) of
         (Inl e, Inl e') \<Rightarrow> e = e'
       | (Inr a, Inr b) \<Rightarrow> set a = set b
       | _ \<Rightarrow> False))"

definition same_slices ::
  "(error + name slice) \<times> 'w \<Rightarrow> (error + name slice) \<times> 'w \<Rightarrow> bool" where
  "same_slices x y =
     (snd x = snd y \<and>
      (case (fst x, fst y) of
         (Inl e, Inl e') \<Rightarrow> e = e'
       | (Inr a, Inr b) \<Rightarrow> (a = None) = (b = None) \<and> set (elems a) = set (elems b)
       | _ \<Rightarrow> False))"

definition agree :: "'w ClaimTrie \<Rightarrow> 'w ClaimTrie \<Rightarrow> bool" where
  "agree ct ct' =
     (height ct = height ct' \<and> blockRepo ct = blockRepo ct' \<and> merkleTrie ct = merkleTrie ct' \<and>
      temporal_SetNodesAt (temporalRepo ct) = temporal_SetNodesAt (temporalRepo ct') \<and>
      node_AppendChange (nodeManager ct) = node_AppendChange (nodeManager ct') \<and>
      node_NextUpdateHeightOfNode (nodeManager ct) =
        node_NextUpdateHeightOfNode (nodeManager ct') \<and>
      node_IterateNames (nodeManager ct) = node_IterateNames (nodeManager ct') \<and>
      (\<forall>h w. same_slices (node_IncrementHeightTo (nodeManager ct) h w)
                 (node_IncrementHeightTo (nodeManager ct') h w)) \<and>
      (\<forall>h w. same_names (temporal_NodesAt (temporalRepo ct) h w)
                 (temporal_NodesAt (temporalRepo ct') h w)))"

subsection \<open>The collaborators as the specification describes them\<close>

text \<open>
  The packages behind the four interfaces are not part of \<^verbatim>\<open>claimtrie.go\<close>. The
  records below follow the specification's description of them (sections 3, 4.1, 4.2,
  4.4 and 4.5), over one state: the block-hash repo, the temporal repo, the persisted
  change log, the node manager's buffer and its height. They give the concrete runs
  below something to run on, and a claim that depends on what the collaborators do is
  settled against them.
\<close>

record store =
  st_blocks :: "(int32 \<times> hash) list"
  st_temporal :: "(int32 \<times> name) list"
  st_changes :: "Change list"
  st_buffered :: "Change list"
  st_height :: int32

definition empty_store :: store where
  "empty_store =
     \<lparr>st_blocks = [], st_temporal = [], st_changes = [], st_buffered = [], st_height = 0\<rparr>"

text \<open>
  Modelled from the spec: the block-hash repo (the package \<^verbatim>\<open>block\<close>), which
  "maps height \<open>\<rightarrow>\<close> Merkle root". The newest entry is first; \<^verbatim>\<open>Load\<close> is the last
  persisted height, 0 on an empty repo; \<^verbatim>\<open>Get\<close> of a height without a root is an error.
\<close>

definition store_block :: "store block_Repo" where
  "store_block =
     \<lparr>block_Load = (\<lambda>s. (Inr (case st_blocks s of [] \<Rightarrow> 0 | (h, r) # rest \<Rightarrow> h), s)),
      block_Get = (\<lambda>h s.
        (case map_of (st_blocks s) h of
           None \<Rightarrow> Inl (External ''not found'')
         | Some r \<Rightarrow> Inr r, s)),
      block_Set = (\<lambda>h r s. (None, s\<lparr>st_blocks := (h, r) # st_blocks s\<rparr>))\<rparr>"

text \<open>
  Modelled from the spec: the temporal repo (the package \<^verbatim>\<open>temporal\<close>), section 4.2:
  \<^verbatim>\<open>nodes_at(h)\<close> is the set of names recorded for \<open>h\<close>, \<^verbatim>\<open>set_nodes_at\<close> takes
  parallel arrays, "each pair records name n needs attention at height h", and
  "duplicate insertions are idempotent".
\<close>

definition store_temporal :: "store temporal_Repo" where
  "store_temporal =
     \<lparr>temporal_NodesAt = (\<lambda>h s.
        (Inr (remdups (map snd (filter (\<lambda>(k, n). k = h) (st_temporal s)))), s)),
      temporal_SetNodesAt = (\<lambda>ns hs s.
        (None, s\<lparr>st_temporal := st_temporal s @ zip hs ns\<rparr>))\<rparr>"

text \<open>The history of one name in the change log.\<close>

definition history :: "store \<Rightarrow> name \<Rightarrow> Change list" where
  "history s n = filter (\<lambda>c. Name c = n) (st_changes s)"

text \<open>A change stays on \<^verbatim>\<open>rewind_to(names, h)\<close> unless it is of a given name and above \<open>h\<close>.\<close>

definition survives :: "name list \<Rightarrow> int32 \<Rightarrow> Change \<Rightarrow> bool" where
  "survives ns h c = (\<not> (Name c \<in> set ns \<and> h <s Height c))"

text \<open>
  Modelled from the spec: the node manager (the package \<^verbatim>\<open>node\<close>), section 4.4, before
  the normalization fork (a name is its own canonical name). The node state machine of
  section 4.3 enters through \<open>nuh\<close>: the next-update height of a node, given the change
  history of its name and the height (0 if no update remains).
  \<^item> \<^verbatim>\<open>append_change\<close> "buffers the change (not yet applied)";
  \<^item> \<^verbatim>\<open>advance_to(h)\<close> persists the buffer and returns, sorted and without duplicates,
    "every name with a buffered change or whose cached next_update_height \<open>\<le>\<close> h";
  \<^item> \<^verbatim>\<open>rewind_to(names, h)\<close> "drops buffered/persisted changes above h for the given
    names";
  \<^item> \<^verbatim>\<open>next_update_height_of\<close> returns the canonical name and the height;
  \<^item> \<^verbatim>\<open>iterate_names\<close> visits every name of the change log.
\<close>

definition store_node :: "(Change list \<Rightarrow> int32 \<Rightarrow> int32) \<Rightarrow> store node_Manager" where
  "store_node nuh =
     \<lparr>node_AppendChange = (\<lambda>chg s. (None, s\<lparr>st_buffered := st_buffered s @ [chg]\<rparr>)),
      node_IncrementHeightTo = (\<lambda>h s.
        (let due = filter (\<lambda>n. 0 <s nuh (history s n) (st_height s)
                              \<and> nuh (history s n) (st_height s) \<le>s h)
                     (remdups (map Name (st_changes s)));
             touched = sort (remdups (map Name (st_buffered s) @ due))
         in (Inr (Some touched),
             s\<lparr>st_changes := st_changes s @ st_buffered s, st_buffered := [],
               st_height := h\<rparr>))),
      node_DecrementHeightTo = (\<lambda>ns h s.
        (None, s\<lparr>st_changes := filter (survives ns h) (st_changes s),
                 st_buffered := filter (survives ns h) (st_buffered s),
                 st_height := h\<rparr>)),
      node_NextUpdateHeightOfNode = (\<lambda>n s. ((n, nuh (history s n) (st_height s)), s)),
      node_IterateNames = (\<lambda>s. (remdups (map Name (st_changes s)), s))\<rparr>"

text \<open>
  Modelled from the spec: the Merkle trie (the package \<^verbatim>\<open>merkletrie\<close>), by the
  invariant of section 3, "the Merkle root is a pure function of the full change log
  truncated at the current height and the fork height constant": \<open>root\<close> is that
  function, its first argument telling the post-fork scheme from the pre-fork one.
  Marking names dirty and adopting a root change no root, so \<^verbatim>\<open>update\<close> and
  \<^verbatim>\<open>set_root\<close> leave the state as it is.
\<close>

definition truncated_log :: "store \<Rightarrow> Change list" where
  "truncated_log s = filter (\<lambda>c. Height c \<le>s st_height s) (st_changes s)"

definition store_trie :: "(bool \<Rightarrow> Change list \<Rightarrow> int32 \<Rightarrow> hash) \<Rightarrow> store merkle_Trie" where
  "store_trie root =
     \<lparr>trie_Update = (\<lambda>n b s. s),
      trie_SetRoot = (\<lambda>h ns s. s),
      trie_MerkleHash = (\<lambda>s. (root False (truncated_log s) (st_height s), s)),
      trie_MerkleHashAllClaims = (\<lambda>s. (root True (truncated_log s) (st_height s), s))\<rparr>"

definition store_ClaimTrie ::
  "(Change list \<Rightarrow> int32 \<Rightarrow> int32) \<Rightarrow> (bool \<Rightarrow> Change list \<Rightarrow> int32 \<Rightarrow> hash) \<Rightarrow> int32
     \<Rightarrow> store ClaimTrie" where
  "store_ClaimTrie nuh root h =
     \<lparr>blockRepo = store_block, temporalRepo = store_temporal, nodeManager = store_node nuh,
      merkleTrie = store_trie root, height = h, cleanups = []\<rparr>"

text \<open>
  Two functions to run the model on. The node's next update is ten blocks after the last
  change of its name, and none remains when the history is empty or ends with a spend;
  the root counts the changes it commits to.
\<close>

definition example_nuh :: "Change list \<Rightarrow> int32 \<Rightarrow> int32" where
  "example_nuh cs h =
     (if cs = [] then 0
      else if Type (last cs) = SpendClaimT \<or> Type (last cs) = SpendSupportT then 0
      else if h <s Height (last cs) + 10 then Height (last cs) + 10 else 0)"

definition example_root :: "bool \<Rightarrow> Change list \<Rightarrow> int32 \<Rightarrow> hash" where
  "example_root allClaims cs h = (if allClaims then 1000 else 0) + of_nat (length cs)"

definition example_ct :: "store ClaimTrie" where
  "example_ct = store_ClaimTrie example_nuh example_root 0"

subsection \<open>A run to evaluate\<close>

text \<open>
  The model above with its fork at height 3: a claim on the name \<open>a\<close> is added and three
  blocks are appended, the third one at the fork height.
\<close>

definition example_fork :: int32 where
  "example_fork = 3"

definition example_op :: OutPoint where
  "example_op = \<lparr>Hash = 1, Index = 0\<rparr>"

definition example_s0 :: store where
  "example_s0 = state_of (AddClaim example_ct [97] example_op 7 100 empty_store)"

definition example_s1 :: store where
  "example_s1 = state_of (AppendBlock example_fork example_ct example_s0)"

definition example_s2 :: store where
  "example_s2 = state_of (AppendBlock example_fork (example_ct\<lparr>height := 1\<rparr>) example_s1)"

definition example_s3 :: store where
  "example_s3 = state_of (AppendBlock example_fork (example_ct\<lparr>height := 2\<rparr>) example_s2)"

text \<open>
  Collaborators with one operation that fails on every call and changes nothing, a block
  repo that holds a root at the height -1, collaborators that return their names in
  another order and repeated, a sequence of operations, and a spend of a claim that does
  not exist.
\<close>

definition failing_Set :: "'w block_Repo \<Rightarrow> 'w block_Repo" where
  "failing_Set r = r\<lparr>block_Set := (\<lambda>h x w. (Some (External ''disk full''), w))\<rparr>"

definition example_ct_failing_Set :: "store ClaimTrie" where
  "example_ct_failing_Set = example_ct\<lparr>blockRepo := failing_Set store_block\<rparr>"

definition failing_IncrementHeightTo :: "'w node_Manager \<Rightarrow> 'w node_Manager" where
  "failing_IncrementHeightTo m =
     m\<lparr>node_IncrementHeightTo := (\<lambda>h w. (Inl (External ''disk full''), w))\<rparr>"

definition example_ct_failing_Increment :: "store ClaimTrie" where
  "example_ct_failing_Increment =
     example_ct\<lparr>nodeManager := failing_IncrementHeightTo (store_node example_nuh)\<rparr>"

definition example_persisted_negative :: store where
  "example_persisted_negative = empty_store\<lparr>st_blocks := [(- 1, 77)]\<rparr>"

definition reordered :: "(error + name list) \<times> 'w \<Rightarrow> (error + name list) \<times> 'w" where
  "reordered x = (case x of (Inr ns, w) \<Rightarrow> (Inr (rev ns @ ns), w) | (Inl e, w) \<Rightarrow> (Inl e, w))"

definition reordered_slice ::
  "(error + name slice) \<times> 'w \<Rightarrow> (error + name slice) \<times> 'w" where
  "reordered_slice x =
     (case x of
        (Inr ns, w) \<Rightarrow> (Inr (map_option (\<lambda>ns. rev ns @ ns) ns), w)
      | (Inl e, w) \<Rightarrow> (Inl e, w))"

definition example_ct_reordered :: "store ClaimTrie" where
  "example_ct_reordered =
     example_ct\<lparr>
       nodeManager := (store_node example_nuh)\<lparr>node_IncrementHeightTo :=
         (\<lambda>h w. reordered_slice (node_IncrementHeightTo (store_node example_nuh) h w))\<rparr>,
       temporalRepo := store_temporal\<lparr>temporal_NodesAt :=
         (\<lambda>h w. reordered (temporal_NodesAt store_temporal h w))\<rparr>\<rparr>"

text \<open>
  A node manager that returns \<^verbatim>\<open>nil\<close> when it has no name to return, as a Go
  function does that appends to a slice it declared with \<^verbatim>\<open>var\<close>.
\<close>

definition nil_when_empty :: "'w node_Manager \<Rightarrow> 'w node_Manager" where
  "nil_when_empty m =
     m\<lparr>node_IncrementHeightTo := (\<lambda>h w.
        case node_IncrementHeightTo m h w of
          (Inr ns, w) \<Rightarrow> (Inr (if elems ns = [] then None else ns), w)
        | (Inl e, w) \<Rightarrow> (Inl e, w))\<rparr>"

definition example_ct_nil :: "store ClaimTrie" where
  "example_ct_nil = example_ct\<lparr>nodeManager := nil_when_empty (store_node example_nuh)\<rparr>"

definition example_ops :: "operation list" where
  "example_ops =
     [Op_AddClaim [98] example_op 8 50, Op_AddClaim [97] example_op 7 100, Op_AppendBlock,
      Op_AddSupport [98] example_op 5 8, Op_AppendBlock, Op_AppendBlock]"

definition example_spend :: store where
  "example_spend = state_of (SpendClaim example_ct [97] example_op 7 empty_store)"

subsection \<open>Appending, rewinding and appending again\<close>

text \<open>
  What holds of the store between two blocks, at the height \<open>t\<close>: the node manager is at
  \<open>t\<close>, the persisted changes are of blocks up to \<open>t\<close>, the buffered ones are of the
  block \<open>t + 1\<close> (every submitter stamps its change with the current height plus one), the
  block repo holds the root of \<open>t\<close>, and two more blocks fit below \<^verbatim>\<open>math.MaxInt32\<close>.
  Submitting a change and appending a block keep it (lemmas \<open>store_inv_submit\<close> and
  \<open>store_inv_AppendBlock\<close> below).
\<close>

definition store_inv ::
  "int32 \<Rightarrow> (bool \<Rightarrow> Change list \<Rightarrow> int32 \<Rightarrow> hash) \<Rightarrow> int32 \<Rightarrow> store \<Rightarrow> bool" where
  "store_inv fork root t s =
     (st_height s = t \<and> t \<noteq> MaxInt32 \<and> t + 1 \<noteq> MaxInt32 \<and>
      (\<forall>c \<in> set (st_changes s). Height c \<le>s t) \<and>
      (\<forall>c \<in> set (st_buffered s). Height c = t + 1) \<and>
      map_of (st_blocks s) t = Some (root (fork \<le>s t) (truncated_log s) t))"

text \<open>
  Submitting changes again: each one goes through \<^verbatim>\<open>forwardNodeChange\<close>, as in all five
  submitters.
\<close>

definition resubmit :: "'w ClaimTrie \<Rightarrow> Change list \<Rightarrow> 'w \<Rightarrow> 'w" where
  "resubmit ct cs w = fold (\<lambda>chg w. state_of (forwardNodeChange ct chg w)) cs w"

text \<open>The names that \<^verbatim>\<open>IncrementHeightTo\<close> of the model returns.\<close>

definition store_touched :: "(Change list \<Rightarrow> int32 \<Rightarrow> int32) \<Rightarrow> int32 \<Rightarrow> store \<Rightarrow> name list" where
  "store_touched nuh h s =
     (case fst (node_IncrementHeightTo (store_node nuh) h s) of
        Inr ns \<Rightarrow> elems ns
      | Inl e \<Rightarrow> [])"

text \<open>
  The state \<open>example_s1\<close>, at height 1, with a claim on the name \<open>b\<close> submitted for the
  block 2; that block appended; and the rewind to the height 1 after it.
\<close>

definition example_pending :: store where
  "example_pending =
     state_of (AddClaim (example_ct\<lparr>height := 1\<rparr>) [98] example_op 8 50 example_s1)"

definition example_first :: "error option \<times> store ClaimTrie \<times> store" where
  "example_first = AppendBlock example_fork (example_ct\<lparr>height := 1\<rparr>) example_pending"

definition example_reset :: "(error option \<times> store ClaimTrie \<times> store) option" where
  "example_reset =
     ResetHeight example_fork (ct_of example_first) 1 (state_of example_first)"

section \<open>Lemmas\<close>

subsection \<open>removeDuplicates\<close>

lemma bytes_Compare_less: "bytes_Compare a b < 0 \<longleftrightarrow> a < b"
  by (induction a b rule: bytes_Compare.induct) (auto simp: list_less_def)

lemma sort_insert_insort: "sort_insert (\<lambda>a b. bytes_Compare a b < 0) x xs = insort x xs"
  by (induction xs) (auto simp: bytes_Compare_less)

lemma sort_Slice_sort: "sort_Slice (\<lambda>a b. bytes_Compare a b < 0) names = sort names"
proof -
  have "sort_insert (\<lambda>a b. bytes_Compare a b < 0) = insort"
    by (intro ext) (rule sort_insert_insort)
  then show ?thesis
    by (simp add: sort_Slice_def sort_key_def)
qed

lemma removeLoop_no_panic:
  "i < length names \<or> i = 0 \<Longrightarrow> removeLoop i names = Some (removeLoop_total i names)"
proof (induction i arbitrary: names)
  case 0
  then show ?case by simp
next
  case (Suc i)
  then have len: "Suc i < length names" by simp
  let ?names' = "if bytes_Equal (names ! i) (names ! Suc i)
        then take i names @ drop (Suc i) names else names"
  from len have "i < length ?names'" by auto
  then have "removeLoop i ?names' = Some (removeLoop_total i ?names')"
    using Suc.IH by blast
  with len show ?case by simp
qed

lemma removeDuplicates_no_panic:
  "removeDuplicates_panics names = Some (removeDuplicates names)"
proof -
  have "length (sort names) - 1 < length (sort names) \<or> length (sort names) - 1 = 0"
    by (cases names) auto
  then show ?thesis
    unfolding removeDuplicates_panics_def removeDuplicates_def Let_def sort_Slice_sort
    by (rule removeLoop_no_panic)
qed

lemma removeLoop_total_inv:
  "sorted names \<Longrightarrow> i < length names \<or> i = 0 \<Longrightarrow> sorted_wrt (<) (drop i names)
   \<Longrightarrow> sorted_wrt (<) (removeLoop_total i names) \<and> set (removeLoop_total i names) = set names"
proof (induction i arbitrary: names)
  case 0
  then show ?case by simp
next
  case (Suc i)
  then have len: "Suc i < length names" by simp
  let ?names' = "if bytes_Equal (names ! i) (names ! Suc i)
        then take i names @ drop (Suc i) names else names"
  have split: "names = take i names @ names ! i # drop (Suc i) names"
    using len by (simp add: id_take_nth_drop)
  have tl: "drop (Suc i) names = names ! Suc i # drop (Suc (Suc i)) names"
    using len by (simp add: Cons_nth_drop_Suc)
  have s1: "sorted ?names'"
  proof (cases "bytes_Equal (names ! i) (names ! Suc i)")
    case True
    have "sorted (take i names @ names ! i # drop (Suc i) names)"
      using Suc.prems(1) split by simp
    then have "sorted (take i names @ drop (Suc i) names)"
      by (auto simp: sorted_append)
    with True show ?thesis by simp
  next
    case False
    with Suc.prems(1) show ?thesis by simp
  qed
  have s2: "i < length ?names'" using len by auto
  have s3: "sorted_wrt (<) (drop i ?names')"
  proof (cases "bytes_Equal (names ! i) (names ! Suc i)")
    case True
    then show ?thesis using Suc.prems(3) len by simp
  next
    case False
    have d: "drop i names = names ! i # drop (Suc i) names"
      using len by (simp add: Cons_nth_drop_Suc)
    have "sorted (drop i names)"
      using Suc.prems(1) by (simp add: sorted_wrt_drop)
    then have le: "\<forall>y \<in> set (drop (Suc i) names). names ! i \<le> y"
      using d by simp
    have lt1: "names ! i < names ! Suc i"
      using le tl False by (auto simp: bytes_Equal_def)
    have "\<forall>y \<in> set (drop (Suc (Suc i)) names). names ! Suc i < y"
      using Suc.prems(3) tl by (metis sorted_wrt.simps(2))
    then have "\<forall>y \<in> set (drop (Suc i) names). names ! i < y"
      using lt1 tl by (metis less_trans set_ConsD)
    with False d Suc.prems(3) show ?thesis by simp
  qed
  have s4: "set ?names' = set names"
  proof (cases "bytes_Equal (names ! i) (names ! Suc i)")
    case True
    have "set names = set (take i names) \<union> {names ! i} \<union> set (drop (Suc i) names)"
      by (subst split) auto
    moreover have "names ! i \<in> set (drop (Suc i) names)"
      using True tl by (simp add: bytes_Equal_def)
    ultimately show ?thesis using True by auto
  next
    case False
    then show ?thesis by simp
  qed
  from Suc.IH [OF s1 _ s3] s2 s4 show ?case by simp
qed

lemma drop_last_strict:
  "sorted_wrt (<) (drop (length xs - 1) (xs :: name list))"
proof (cases "xs = []")
  case True
  then show ?thesis by simp
next
  case False
  then have "drop (length xs - 1) xs = [last xs]"
    by (induction xs) (auto simp: drop_Cons')
  then show ?thesis by simp
qed

lemma removeDuplicates_sort: 
  "sorted_wrt (<) (removeDuplicates names) \<and> set (removeDuplicates names) = set names"
proof -
  let ?s = "sort names"
  have a: "sorted ?s" by simp
  have b: "length ?s - 1 < length ?s \<or> length ?s - 1 = 0" by (cases names) simp_all
  have c: "sorted_wrt (<) (drop (length ?s - 1) ?s)" by (rule drop_last_strict)
  from removeLoop_total_inv [OF a b c] show ?thesis
    by (simp add: removeDuplicates_def sort_Slice_sort Let_def)
qed

lemma removeDuplicates_eq: "removeDuplicates names = sorted_list_of_set (set names)"
proof -
  have "sorted_wrt (<) (removeDuplicates names)" using removeDuplicates_sort by blast
  then have "sorted (removeDuplicates names) \<and> distinct (removeDuplicates names)"
    by (simp add: strict_sorted_iff)
  then show ?thesis
    using removeDuplicates_sort
    by (metis sorted_list_of_set.idem_if_sorted_distinct)
qed

lemma elems_simps [simp]: "elems None = []" "elems (Some xs) = xs"
  by (simp_all add: elems_def)

lemma removeDuplicates_Nil [simp]: "removeDuplicates [] = []"
  by (simp add: removeDuplicates_def sort_Slice_def)

lemma elems_removeDuplicates_slice [simp]:
  "elems (removeDuplicates_slice s) = removeDuplicates (elems s)"
  by (cases s) (simp_all add: removeDuplicates_slice_def)

lemma elems_append_slice [simp]: "elems (append_slice s xs) = elems s @ xs"
  by (simp add: append_slice_def)

lemma removeDuplicates_slice_eq_None [simp]: "(removeDuplicates_slice s = None) = (s = None)"
  by (simp add: removeDuplicates_slice_def)

lemma append_slice_eq_None [simp]: "(append_slice s xs = None) = (s = None \<and> xs = [])"
  by (simp add: append_slice_def)

lemma slice_eqI: "(s = None) = (s' = None) \<Longrightarrow> elems s = elems s' \<Longrightarrow> s = s'"
  by (cases s; cases s') simp_all

subsection \<open>Recording is transparent\<close>

lemma recording_sel [simp]:
  "height (recording ct) = height ct"
  "blockRepo (recording ct) = recording_block (blockRepo ct)"
  "temporalRepo (recording ct) = recording_temporal (temporalRepo ct)"
  "nodeManager (recording ct) = recording_node (nodeManager ct)"
  "merkleTrie (recording ct) = recording_trie (merkleTrie ct)"
  "cleanups (recording ct) = map unlogged (cleanups ct)"
  by (simp_all add: recording_def)

lemma recording_height_update [simp]:
  "(recording ct)\<lparr>height := h\<rparr> = recording (ct\<lparr>height := h\<rparr>)"
  by (simp add: recording_def)

lemma recording_block_sel [simp]:
  "block_Load (recording_block r) (w, tr) =
     (case block_Load r w of (x, w') \<Rightarrow> (x, w', tr @ [Call_Load x]))"
  "block_Get (recording_block r) h (w, tr) =
     (case block_Get r h w of (x, w') \<Rightarrow> (x, w', tr @ [Call_Get h x]))"
  "block_Set (recording_block r) h v (w, tr) =
     (case block_Set r h v w of (x, w') \<Rightarrow> (x, w', tr @ [Call_Set h v x]))"
  by (simp_all add: recording_block_def logged_def)

lemma recording_temporal_sel [simp]:
  "temporal_NodesAt (recording_temporal r) h (w, tr) =
     (case temporal_NodesAt r h w of (x, w') \<Rightarrow> (x, w', tr @ [Call_NodesAt h x]))"
  "temporal_SetNodesAt (recording_temporal r) ns hs (w, tr) =
     (case temporal_SetNodesAt r ns hs w of (x, w') \<Rightarrow> (x, w', tr @ [Call_SetNodesAt ns hs x]))"
  by (simp_all add: recording_temporal_def logged_def)

lemma recording_node_sel [simp]:
  "node_AppendChange (recording_node m) chg (w, tr) =
     (case node_AppendChange m chg w of (x, w') \<Rightarrow> (x, w', tr @ [Call_AppendChange chg x]))"
  "node_IncrementHeightTo (recording_node m) h (w, tr) =
     (case node_IncrementHeightTo m h w of (x, w') \<Rightarrow> (x, w', tr @ [Call_IncrementHeightTo h x]))"
  "node_DecrementHeightTo (recording_node m) ns h (w, tr) =
     (case node_DecrementHeightTo m ns h w of
        (x, w') \<Rightarrow> (x, w', tr @ [Call_DecrementHeightTo ns h x]))"
  "node_NextUpdateHeightOfNode (recording_node m) n (w, tr) =
     (case node_NextUpdateHeightOfNode m n w of
        (x, w') \<Rightarrow> (x, w', tr @ [Call_NextUpdateHeightOfNode n x]))"
  "node_IterateNames (recording_node m) (w, tr) =
     (case node_IterateNames m w of (x, w') \<Rightarrow> (x, w', tr @ [Call_IterateNames x]))"
  by (simp_all add: recording_node_def logged_def)

lemma recording_trie_sel [simp]:
  "trie_Update (recording_trie t) n b (w, tr) = (trie_Update t n b w, tr @ [Call_Update n b])"
  "trie_SetRoot (recording_trie t) h ns (w, tr) = (trie_SetRoot t h ns w, tr @ [Call_SetRoot h ns])"
  "trie_MerkleHash (recording_trie t) (w, tr) =
     (case trie_MerkleHash t w of (x, w') \<Rightarrow> (x, w', tr @ [Call_MerkleHash x]))"
  "trie_MerkleHashAllClaims (recording_trie t) (w, tr) =
     (case trie_MerkleHashAllClaims t w of (x, w') \<Rightarrow> (x, w', tr @ [Call_MerkleHashAllClaims x]))"
  by (simp_all add: recording_trie_def logged_def logged_void_def)

lemma updateLoop_recording:
  "updateLoop (recording ct) names un uh (w, tr) =
     (case updateLoop ct names un uh w of
        (un', uh', w') \<Rightarrow> (un', uh', w', tr @ updateLoop_calls ct names w))"
proof (induction names arbitrary: un uh w tr)
  case Nil
  show ?case by simp
next
  case (Cons n names)
  show ?case 
    by (auto simp: Cons.IH split: prod.splits)
qed

lemma fold_Update_recording:
  "fold (\<lambda>name w. trie_Update (recording_trie t) name b w) ns (w, tr) =
     (fold (\<lambda>name w. trie_Update t name b w) ns w, tr @ map (\<lambda>n. Call_Update n b) ns)"
  by (induction ns arbitrary: w tr) simp_all

lemma MerkleHash_recording:
  "MerkleHash fork (recording ct) (w, tr) =
     (case MerkleHash fork ct w of (x, w') \<Rightarrow> (x, w', tr @ [MerkleHash_call fork (height ct) x]))"
  by (simp add: MerkleHash_def MerkleHash_call_def)

lemma forwardNodeChange_recording:
  "forwardNodeChange (recording ct) chg (w, tr) =
     (case forwardNodeChange ct chg w of
        (e, ct', w') \<Rightarrow> (e, recording ct', w',
           tr @ [Call_AppendChange (chg\<lparr>Height := height ct + 1\<rparr>)
                  (fst (node_AppendChange (nodeManager ct) (chg\<lparr>Height := height ct + 1\<rparr>) w))]))"
  by (simp add: forwardNodeChange_def ClaimTrie_Height_def split: prod.splits option.splits)

subsection \<open>The calls of AppendBlock\<close>

lemma updated_names_simps [simp]:
  "updated_names [] = []"
  "updated_names (c # tr) = updated_name c @ updated_names tr"
  "updated_names (tr @ tr') = updated_names tr @ updated_names tr'"
  by (simp_all add: updated_names_def)

lemma updated_names_updateLoop_calls [simp]:
  "updated_names (updateLoop_calls ct names w) = names"
  by (induction names arbitrary: w) (simp_all split: prod.splits)

lemma finishing_updateLoop_calls [simp]:
  "filter is_finishing (updateLoop_calls ct names w) = []"
  by (induction names arbitrary: w) (simp_all split: prod.splits)

lemma updated_names_map_False [simp]:
  "updated_names (map (\<lambda>n. Call_Update n False) ns) = []"
  by (induction ns) simp_all

lemma finishing_map_False [simp]:
  "filter is_finishing (map (\<lambda>n. Call_Update n False) ns) = map (\<lambda>n. Call_Update n False) ns"
  by (induction ns) simp_all

lemma AppendBlock_recording:
  "AppendBlock fork (recording ct) (w, tr) =
     (case AppendBlock fork ct w of
        (e, ct', w') \<Rightarrow> (e, recording ct', w', tr @ AppendBlock_calls fork ct w))"
  by (simp add: AppendBlock_def AppendBlock_calls_def fork_calls_def updateTrieForHashForkIfNecessary_def
  updateLoop_recording fold_Update_recording MerkleHash_recording Let_def split: prod.splits sum.splits option.splits)

lemma calls_of_AppendBlock:
  "calls_of (AppendBlock fork (recording ct) (w, tr)) = tr @ AppendBlock_calls fork ct w"
  by (simp add: AppendBlock_recording calls_of_def split: prod.splits)

lemma err_of_AppendBlock:
  "err_of (AppendBlock fork (recording ct) (w, tr)) = err_of (AppendBlock fork ct w)"
  by (simp add: AppendBlock_recording err_of_def split: prod.splits)

lemma updated_names_fork_calls [simp]: "updated_names (fork_calls fork ct w) = []"
  by (simp add: fork_calls_def split: prod.splits)

lemma updated_names_AppendBlock_calls:
  "updated_names (AppendBlock_calls fork ct w) =
     (case node_IncrementHeightTo (nodeManager ct) (height ct + 1) w of
        (Inl e, w1) \<Rightarrow> []
      | (Inr touched, w1) \<Rightarrow>
        (case temporal_NodesAt (temporalRepo ct) (height ct + 1) w1 of
           (Inl e, w2) \<Rightarrow> []
         | (Inr expirations, w2) \<Rightarrow>
             removeDuplicates (removeDuplicates (elems touched) @ expirations)))"
  by (simp add: AppendBlock_calls_def Let_def MerkleHash_call_def split: prod.splits sum.splits option.splits)

lemma AppendBlock_cases [case_names inc_fail get_fail set_fail ok]:
  fixes ct :: "'w ClaimTrie" and w :: 'w
  obtains
    (inc_fail) e w1 where
      "node_IncrementHeightTo (nodeManager ct) (height ct + 1) w = (Inl e, w1)"
  | (get_fail) touched w1 e w2 where
      "node_IncrementHeightTo (nodeManager ct) (height ct + 1) w = (Inr touched, w1)"
      "temporal_NodesAt (temporalRepo ct) (height ct + 1) w1 = (Inl e, w2)"
  | (set_fail) touched w1 expirations w2 un uh w3 e w4 where
      "node_IncrementHeightTo (nodeManager ct) (height ct + 1) w = (Inr touched, w1)"
      "temporal_NodesAt (temporalRepo ct) (height ct + 1) w1 = (Inr expirations, w2)"
      "updateLoop (ct\<lparr>height := height ct + 1\<rparr>)
         (removeDuplicates (removeDuplicates (elems touched) @ expirations))
         (removeDuplicates (elems touched))
         (map (\<lambda>_. height ct + 1) (removeDuplicates (elems touched))) w2 = (un, uh, w3)"
      "temporal_SetNodesAt (temporalRepo ct) un uh w3 = (Some e, w4)"
  | (ok) touched w1 expirations w2 un uh w3 w4 where
      "node_IncrementHeightTo (nodeManager ct) (height ct + 1) w = (Inr touched, w1)"
      "temporal_NodesAt (temporalRepo ct) (height ct + 1) w1 = (Inr expirations, w2)"
      "updateLoop (ct\<lparr>height := height ct + 1\<rparr>)
         (removeDuplicates (removeDuplicates (elems touched) @ expirations))
         (removeDuplicates (elems touched))
         (map (\<lambda>_. height ct + 1) (removeDuplicates (elems touched))) w2 = (un, uh, w3)"
      "temporal_SetNodesAt (temporalRepo ct) un uh w3 = (None, w4)"
proof -
  obtain r1 w1 where inc: "node_IncrementHeightTo (nodeManager ct) (height ct + 1) w = (r1, w1)"
    by (cases "node_IncrementHeightTo (nodeManager ct) (height ct + 1) w")
  show thesis
  proof (cases r1)
    case (Inl e)
    with inc inc_fail show thesis by blast
  next
    case (Inr touched)
    obtain r2 w2 where get: "temporal_NodesAt (temporalRepo ct) (height ct + 1) w1 = (r2, w2)"
      by (cases "temporal_NodesAt (temporalRepo ct) (height ct + 1) w1")
    show thesis
    proof (cases r2)
      case (Inl e)
      with inc Inr get get_fail show thesis by blast
    next
      case exp: (Inr expirations)
      obtain un uh w3 where loop: "updateLoop (ct\<lparr>height := height ct + 1\<rparr>)
         (removeDuplicates (removeDuplicates (elems touched) @ expirations))
         (removeDuplicates (elems touched))
         (map (\<lambda>_. height ct + 1) (removeDuplicates (elems touched))) w2 = (un, uh, w3)"
        by (metis prod_cases3)
      obtain r4 w4 where set: "temporal_SetNodesAt (temporalRepo ct) un uh w3 = (r4, w4)"
        by (cases "temporal_SetNodesAt (temporalRepo ct) un uh w3")
      show thesis
      proof (cases r4)
        case None
        with inc Inr get exp loop set ok show thesis by blast
      next
        case (Some e)
        with inc Inr get exp loop set set_fail show thesis by blast
      qed
    qed
  qed
qed

lemmas AppendBlock_unfold = AppendBlock_def AppendBlock_calls_def Let_def

lemma projections_simps [simp]:
  "batches [] = []" "batches (c # tr) = batch_of_call c @ batches tr"
  "batches (tr @ tr') = batches tr @ batches tr'"
  "touched_names [] = []"
  "touched_names (c # tr) = touched_by_call c @ touched_names tr"
  "touched_names (tr @ tr') = touched_names tr @ touched_names tr'"
  "returned [] = []"
  "returned (c # tr) = returned_by_call c @ returned tr"
  "returned (tr @ tr') = returned tr @ returned tr'"
  "expirations_of [] = []" "expirations_of (c # tr) = expirations_of_call c @ expirations_of tr"
  "expirations_of (tr @ tr') = expirations_of tr @ expirations_of tr'"
  "scheduled [] = []" "scheduled (c # tr) = scheduled_by_call c @ scheduled tr"
  "scheduled (tr @ tr') = scheduled tr @ scheduled tr'"
  "asked [] = []" "asked (c # tr) = asked_by_call c @ asked tr"
  "asked (tr @ tr') = asked tr @ asked tr'"
  by (simp_all add: batches_def touched_names_def returned_def expirations_of_def scheduled_def
        asked_def)

lemma batches_updateLoop_calls [simp]: "batches (updateLoop_calls ct names w) = []"
  by (induction names arbitrary: w) (simp_all split: prod.splits)

lemma touched_updateLoop_calls [simp]: "touched_names (updateLoop_calls ct names w) = []"
  by (induction names arbitrary: w) (simp_all split: prod.splits)

lemma returned_updateLoop_calls [simp]: "returned (updateLoop_calls ct names w) = []"
  by (induction names arbitrary: w) (simp_all split: prod.splits)

lemma expirations_updateLoop_calls [simp]: "expirations_of (updateLoop_calls ct names w) = []"
  by (induction names arbitrary: w) (simp_all split: prod.splits)

lemma asked_updateLoop_calls [simp]: "asked (updateLoop_calls ct names w) = names"
  by (induction names arbitrary: w) (simp_all split: prod.splits)

lemma batches_map_Update [simp]: "batches (map (\<lambda>n. Call_Update n b) ns) = []"
  by (induction ns) simp_all

lemma touched_map_Update [simp]: "touched_names (map (\<lambda>n. Call_Update n b) ns) = []"
  by (induction ns) simp_all

lemma returned_map_Update [simp]: "returned (map (\<lambda>n. Call_Update n b) ns) = []"
  by (induction ns) simp_all

lemma expirations_map_Update [simp]: "expirations_of (map (\<lambda>n. Call_Update n b) ns) = []"
  by (induction ns) simp_all

lemma scheduled_map_Update [simp]: "scheduled (map (\<lambda>n. Call_Update n b) ns) = []"
  by (induction ns) simp_all

lemma asked_map_Update [simp]: "asked (map (\<lambda>n. Call_Update n b) ns) = []"
  by (induction ns) simp_all

lemma projections_fork_calls [simp]:
  "batches (fork_calls fork ct w) = []"
  "touched_names (fork_calls fork ct w) = []"
  "returned (fork_calls fork ct w) = []"
  "expirations_of (fork_calls fork ct w) = []"
  "scheduled (fork_calls fork ct w) = []"
  "asked (fork_calls fork ct w) = []"
  by (simp_all add: fork_calls_def split: prod.splits)

lemma projections_MerkleHash_call [simp]:
  "batch_of_call (MerkleHash_call fork h x) = []"
  "touched_by_call (MerkleHash_call fork h x) = []"
  "returned_by_call (MerkleHash_call fork h x) = []"
  "expirations_of_call (MerkleHash_call fork h x) = []"
  "scheduled_by_call (MerkleHash_call fork h x) = []"
  "asked_by_call (MerkleHash_call fork h x) = []"
  "updated_name (MerkleHash_call fork h x) = []"
  by (simp_all add: MerkleHash_call_def)

lemma updateLoop_batch:
  "updateLoop ct names un uh w = (un', uh', w') \<Longrightarrow>
     un' = un @ map fst (scheduled (updateLoop_calls ct names w)) \<and>
     uh' = uh @ map snd (scheduled (updateLoop_calls ct names w))"
proof (induction names arbitrary: un uh w)
  case Nil
  then show ?case by simp
next
  case (Cons n names)
  obtain newName nextUpdate w1 where nu:
    "node_NextUpdateHeightOfNode (nodeManager ct) n (trie_Update (merkleTrie ct) n True w) =
       ((newName, nextUpdate), w1)"
    by (metis prod.exhaust)
  show ?case
  proof (cases "nextUpdate \<le>s 0")
    case True
    with Cons.prems nu have "updateLoop ct names un uh w1 = (un', uh', w')" by simp
    from Cons.IH [OF this] nu True show ?thesis by simp
  next
    case False
    with Cons.prems nu
    have "updateLoop ct names (un @ [newName]) (uh @ [nextUpdate]) w1 = (un', uh', w')" by simp
    from Cons.IH [OF this] nu False show ?thesis by simp
  qed
qed

lemma removeDuplicates_append_idem:
  "removeDuplicates (removeDuplicates xs @ ys) = removeDuplicates (xs @ ys)"
  by (simp add: removeDuplicates_eq removeDuplicates_sort)

lemma batch_AppendBlock_calls:
  "batches (AppendBlock_calls fork ct w) =
     (if expirations_of (AppendBlock_calls fork ct w) = [] then []
      else [(removeDuplicates (touched_names (AppendBlock_calls fork ct w)) @
               map fst (scheduled (AppendBlock_calls fork ct w)),
             map (\<lambda>_. height ct + 1) (removeDuplicates (touched_names (AppendBlock_calls fork ct w))) @
               map snd (scheduled (AppendBlock_calls fork ct w)))]) \<and>
   asked (AppendBlock_calls fork ct w) = updated_names (AppendBlock_calls fork ct w) \<and>
   updated_names (AppendBlock_calls fork ct w) =
     (if expirations_of (AppendBlock_calls fork ct w) = [] then []
      else removeDuplicates (touched_names (AppendBlock_calls fork ct w) @
             concat (expirations_of (AppendBlock_calls fork ct w))))"
proof (cases rule: AppendBlock_cases [of ct w])
  case (inc_fail e w1)
  then show ?thesis by (simp add: AppendBlock_unfold)
next
  case (get_fail touched w1 e w2)
  then show ?thesis by (simp add: AppendBlock_unfold)
next
  case (set_fail touched w1 expirations w2 un uh w3 e w4)
  from updateLoop_batch [OF set_fail(3)] set_fail show ?thesis
    by (simp add: AppendBlock_unfold removeDuplicates_append_idem)
next
  case (ok touched w1 expirations w2 un uh w3 w4)
  from updateLoop_batch [OF ok(3)] ok show ?thesis
    by (simp add: AppendBlock_unfold removeDuplicates_append_idem split: prod.splits)
qed


lemma block_names_AppendBlock_calls:
  "elems (block_names (AppendBlock_calls fork ct w)) =
     updated_names (AppendBlock_calls fork ct w)"
proof (cases rule: AppendBlock_cases [of ct w])
  case (inc_fail e w1)
  then show ?thesis by (simp add: AppendBlock_unfold block_names_def)
next
  case (get_fail touched w1 e w2)
  then show ?thesis by (simp add: AppendBlock_unfold block_names_def)
next
  case (set_fail touched w1 expirations w2 un uh w3 e w4)
  then show ?thesis by (simp add: AppendBlock_unfold block_names_def)
next
  case (ok touched w1 expirations w2 un uh w3 w4)
  then show ?thesis
    by (simp add: AppendBlock_unfold block_names_def split: prod.splits)
qed

text \<open>
  At the fork height 1 on the empty store: a manager that returns \<^verbatim>\<open>nil\<close> makes
  \<^verbatim>\<open>AppendBlock\<close> hand \<^verbatim>\<open>nil\<close> to \<^verbatim>\<open>SetRoot\<close>, and one that returns an empty
  slice makes it hand over an empty slice.
\<close>

lemma AppendBlock_nil_names_example:
  "calls_of (AppendBlock 1 (recording example_ct_nil) (empty_store, [])) =
     [Call_IncrementHeightTo 1 (Inr None), Call_NodesAt 1 (Inr []), Call_SetNodesAt [] [] None,
      Call_IterateNames [], Call_MerkleHashAllClaims 1000, Call_Set 1 1000 None,
      Call_SetRoot 1000 None] \<and>
   calls_of (AppendBlock 1 (recording example_ct) (empty_store, [])) =
     [Call_IncrementHeightTo 1 (Inr (Some [])), Call_NodesAt 1 (Inr []),
      Call_SetNodesAt [] [] None, Call_IterateNames [], Call_MerkleHashAllClaims 1000,
      Call_Set 1 1000 None, Call_SetRoot 1000 (Some [])]"
  by code_simp

subsection \<open>The loop of ResetHeight\<close>

lemma sint_MaxInt32: "sint MaxInt32 = 2147483647"
  by (simp add: MaxInt32_def)

lemma sint_int32_bounds: "- 2147483648 \<le> sint (h :: int32)" "sint (h :: int32) \<le> 2147483647"
  using sint_ge [of h] sint_lt [of h] by simp_all

lemma not_MaxInt32: "(h :: int32) \<noteq> MaxInt32 \<longleftrightarrow> sint h < 2147483647"
proof
  assume "h \<noteq> MaxInt32"
  then have "sint h \<noteq> sint MaxInt32" using signed_word_eqI by blast
  with sint_int32_bounds(2) [of h] show "sint h < 2147483647"
    by (simp add: sint_MaxInt32)
next
  assume "sint h < 2147483647"
  then show "h \<noteq> MaxInt32" using sint_MaxInt32 by auto
qed

lemma sint_succ: "(h :: int32) \<noteq> MaxInt32 \<Longrightarrow> sint (h + 1) = sint h + 1"
proof -
  assume "h \<noteq> MaxInt32"
  then have lt: "sint h < 2147483647" by (simp add: not_MaxInt32)
  have "sint (h + 1) = signed_take_bit 31 (sint h + 1)"
    by (simp add: sint_word_ariths)
  also have "\<dots> = sint h + 1"
    using lt sint_int32_bounds(1) [of h] by (intro signed_take_bit_int_eq_self) simp_all
  finally show ?thesis .
qed

lemma resetLoop_steps:
  assumes "height ct \<noteq> MaxInt32"
  shows "resetLoop ct h names w =
           Some (resetSteps ct (nat (sint (height ct) + 1 - sint h)) h names w)"
proof (induction "nat (sint (height ct) + 1 - sint h)" arbitrary: h names w)
  case 0
  then have "\<not> h \<le>s height ct" by (simp add: word_sle_eq)
  with 0 show ?case by (subst resetLoop.simps) simp
next
  case (Suc n)
  then have le: "h \<le>s height ct" by (simp add: word_sle_eq)
  then have "sint h < 2147483647"
    using assms by (simp add: word_sle_eq not_MaxInt32)
  then have s: "sint (h + 1) = sint h + 1" by (simp add: sint_succ not_MaxInt32)
  have n: "n = nat (sint (height ct) + 1 - sint (h + 1))" using Suc(2) s by simp
  have unfold: "nat (sint (height ct) + 1 - sint h) = Suc n" using Suc(2) by simp
  show ?case
    unfolding unfold
    by (subst resetLoop.simps) (simp add: le Suc(1) [OF n] n split: prod.splits sum.splits)
qed

lemma resetSteps_recording:
  "resetSteps (recording ct) n h names (w, tr) =
     (case resetSteps ct n h names w of
        (r, w') \<Rightarrow> (r, w', tr @ resetSteps_calls ct n h w))"
  by (induction n arbitrary: h names w tr) (auto split: prod.splits sum.splits)

lemma resetSteps_Inr:
  "resetSteps ct n h names w = (Inr names', w') \<Longrightarrow>
     \<exists>rs. length rs = n \<and> names' = names @ concat rs \<and>
       resetSteps_calls ct n h w =
         map (\<lambda>(k, r). Call_NodesAt k (Inr r)) (zip (map (\<lambda>i. h + of_nat i) [0..<n]) rs)"
proof (induction n arbitrary: h names w)
  case 0
  then show ?case by simp
next
  case (Suc n)
  obtain r1 w1 where n1: "temporal_NodesAt (temporalRepo ct) h w = (r1, w1)"
    by (cases "temporal_NodesAt (temporalRepo ct) h w")
  show ?case
  proof (cases r1)
    case (Inl e)
    with Suc.prems n1 show ?thesis by simp
  next
    case (Inr results)
    with Suc.prems n1 have "resetSteps ct n (h + 1) (names @ results) w1 = (Inr names', w')"
      by simp
    from Suc.IH [OF this] obtain rs where rs: "length rs = n"
      "names' = (names @ results) @ concat rs"
      "resetSteps_calls ct n (h + 1) w1 =
         map (\<lambda>(k, r). Call_NodesAt k (Inr r)) (zip (map (\<lambda>i. h + 1 + of_nat i) [0..<n]) rs)"
      by blast
    have shift: "map (\<lambda>i. h + of_nat i) [0..<Suc n] = h # map (\<lambda>i. h + 1 + of_nat i) [0..<n]"
      by (simp add: upt_rec [of 0 "Suc n"] map_Suc_upt [symmetric] del: upt.simps upt_Suc) 
    show ?thesis
      apply (rule exI [of _ "results # rs"])
      using rs n1 Inr unfolding shift by simp
  qed
qed

lemma heights_between_iterate:
  assumes "target \<noteq> MaxInt32"
  shows "heights_between target cur =
           map (\<lambda>i. target + 1 + of_nat i) [0..<nat (sint cur - sint target)]"
proof -
  have "[sint target + 1 .. sint cur] = map (\<lambda>i. sint target + 1 + int i) [0..<nat (sint cur - sint target)]"
    by (rule nth_equalityI) (auto)
  then show ?thesis
    by (simp add: heights_between_def comp_def)
qed

lemma set_heights_between:
  "set (heights_between target cur) = {h. target <s h \<and> h \<le>s cur}"
proof -
  have in_range: "sint (word_of_int i :: int32) = i" if "sint target + 1 \<le> i" "i \<le> sint cur" for i
    using that sint_int32_bounds [of target] sint_int32_bounds [of cur]
    by (simp add: signed_of_int signed_take_bit_int_eq_self)
  show ?thesis
  proof (intro set_eqI iffI)
    fix h assume "h \<in> set (heights_between target cur)"
    then obtain i where "h = word_of_int i" "sint target + 1 \<le> i" "i \<le> sint cur"
      by (auto simp: heights_between_def)
    then show "h \<in> {h. target <s h \<and> h \<le>s cur}"
      using in_range [of i] by (simp add: word_sle_eq word_sless_alt)
  next
    fix h assume "h \<in> {h. target <s h \<and> h \<le>s cur}"
    then have "sint target + 1 \<le> sint h" "sint h \<le> sint cur"
      by (simp_all add: word_sle_eq word_sless_alt)
    then have "sint h \<in> set [sint target + 1 .. sint cur]" by simp
    then have "word_of_int (sint h) \<in> set (heights_between target cur)"
      unfolding heights_between_def by (metis image_eqI set_map)
    then show "h \<in> set (heights_between target cur)" by simp
  qed
qed

lemma MerkleHash_recording':
  "MerkleHash fork (recording ct) (w, tr) =
     (fst (MerkleHash fork ct w), snd (MerkleHash fork ct w),
      tr @ [MerkleHash_call fork (height ct) (fst (MerkleHash fork ct w))])"
  by (simp add: MerkleHash_recording split: prod.splits)

subsection \<open>Failures, and collaborators that agree\<close>

lemma updateLoop_same_methods:
  "trie_Update (merkleTrie ct') = trie_Update (merkleTrie ct) \<Longrightarrow>
   node_NextUpdateHeightOfNode (nodeManager ct') = node_NextUpdateHeightOfNode (nodeManager ct) \<Longrightarrow>
     updateLoop ct' names un uh w = updateLoop ct names un uh w"
  by (induction names arbitrary: un uh w) (simp_all split: prod.splits)

lemma AppendBlock_Set_error_irrelevant:
  "AppendBlock fork
     (ct\<lparr>blockRepo := (blockRepo ct)\<lparr>block_Set :=
        (\<lambda>h x w. (e, snd (block_Set (blockRepo ct) h x w)))\<rparr>\<rparr>) w =
   (err_of (AppendBlock fork ct w),
    (ct_of (AppendBlock fork ct w))\<lparr>blockRepo := (blockRepo ct)\<lparr>block_Set :=
        (\<lambda>h x w. (e, snd (block_Set (blockRepo ct) h x w)))\<rparr>\<rparr>,
    state_of (AppendBlock fork ct w))"
proof -
  let ?ct' = "ct\<lparr>blockRepo := (blockRepo ct)\<lparr>block_Set :=
        (\<lambda>h x w. (e, snd (block_Set (blockRepo ct) h x w)))\<rparr>\<rparr>"
  have loop: "updateLoop (?ct'\<lparr>height := height ct + 1\<rparr>) names un uh w' =
      updateLoop (ct\<lparr>height := height ct + 1\<rparr>) names un uh w'" for names un uh w'
    by (rule updateLoop_same_methods) simp_all
  show ?thesis
  proof (cases rule: AppendBlock_cases [of ct w])
    case (inc_fail e w1)
    then show ?thesis by (simp add: AppendBlock_def err_of_def ct_of_def state_of_def)
  next
    case (get_fail touched w1 e w2)
    then show ?thesis by (simp add: AppendBlock_def err_of_def ct_of_def state_of_def)
  next
    case (set_fail touched w1 expirations w2 un uh w3 e w4)
    then show ?thesis
      by (simp add: AppendBlock_def err_of_def ct_of_def state_of_def Let_def loop)
  next
    case (ok touched w1 expirations w2 un uh w3 w4)
    then show ?thesis
      by (simp add: AppendBlock_def err_of_def ct_of_def state_of_def Let_def loop
            updateTrieForHashForkIfNecessary_def MerkleHash_def split: prod.splits)
  qed
qed

lemma failed_calls_simps [simp]:
  "failed_calls [] = []"
  "failed_calls (c # tr) = (if failed c \<noteq> None then c # failed_calls tr else failed_calls tr)"
  "failed_calls (tr @ tr') = failed_calls tr @ failed_calls tr'"
  by (simp_all add: failed_calls_def)

lemma failed_updateLoop_calls [simp]: "failed_calls (updateLoop_calls ct names w) = []"
  by (induction names arbitrary: w) (simp_all split: prod.splits)

lemma failed_map_Update [simp]: "failed_calls (map (\<lambda>n. Call_Update n b) ns) = []"
  by (induction ns) simp_all

lemma failed_fork_calls [simp]: "failed_calls (fork_calls fork ct w) = []"
  by (simp add: fork_calls_def split: prod.splits)

lemma failed_MerkleHash_call [simp]: "failed (MerkleHash_call fork h x) = None"
  by (simp add: MerkleHash_call_def)

lemma ct_of_AppendBlock:
  "ct_of (AppendBlock fork ct w) = ct\<lparr>height := height ct + 1\<rparr>"
  by (simp add: AppendBlock_def ct_of_def Let_def split: prod.splits sum.splits option.splits)

lemma ct_of_AppendBlock_recording:
  "ct_of (AppendBlock fork (recording ct) (w, tr)) = recording (ct_of (AppendBlock fork ct w))"
  by (simp add: AppendBlock_recording ct_of_def split: prod.splits)

lemma AppendBlock_failures:
  "(failed_calls (AppendBlock_calls fork ct w) = [] \<or>
    failed_calls (AppendBlock_calls fork ct w) = [last (AppendBlock_calls fork ct w)]) \<and>
   err_of (AppendBlock fork ct w) =
     (case failed_calls (AppendBlock_calls fork ct w) of [] \<Rightarrow> None | c # cs \<Rightarrow> wrapped c)"
proof (cases rule: AppendBlock_cases [of ct w])
  case (inc_fail e w1)
  then show ?thesis by (simp add: AppendBlock_unfold err_of_def)
next
  case (get_fail touched w1 e w2)
  then show ?thesis by (simp add: AppendBlock_unfold err_of_def)
next
  case (set_fail touched w1 expirations w2 un uh w3 e w4)
  then show ?thesis by (simp add: AppendBlock_unfold err_of_def)
next
  case (ok touched w1 expirations w2 un uh w3 w4)
  then show ?thesis by (simp add: AppendBlock_unfold err_of_def split: prod.splits)
qed

lemma resetLoop_Some_steps:
  assumes "resetLoop ct h names w = Some y"
  shows "\<exists>n. resetSteps ct n h names w = y"
proof (rule resetLoop.raw_induct
    [where P = "\<lambda>ct h names w y. \<exists>n. resetSteps ct n h names w = y", OF _ assms])
  fix loop :: "'a ClaimTrie \<Rightarrow> int32 \<Rightarrow> name list \<Rightarrow> 'a \<Rightarrow> ((error + name list) \<times> 'a) option"
  fix ct h names w y
  assume IH: "\<And>ct h names w y. loop ct h names w = Some y \<Longrightarrow>
      \<exists>n. resetSteps ct n h names w = y"
  assume body: "(if h \<le>s height ct then
        (case temporal_NodesAt (temporalRepo ct) h w of
           (Inl err, w) \<Rightarrow> Some (Inl err, w)
         | (Inr results, w) \<Rightarrow> loop ct (h + 1) (names @ results) w)
      else Some (Inr names, w)) = Some y"
  show "\<exists>n. resetSteps ct n h names w = y"
  proof (cases "h \<le>s height ct")
    case False
    with body have "resetSteps ct 0 h names w = y" by simp
    then show ?thesis by blast
  next
    case True
    obtain r1 w1 where n1: "temporal_NodesAt (temporalRepo ct) h w = (r1, w1)"
      by (cases "temporal_NodesAt (temporalRepo ct) h w")
    show ?thesis
    proof (cases r1)
      case (Inl e)
      with body True n1 have "resetSteps ct (Suc 0) h names w = y" by auto
      then show ?thesis by blast
    next
      case (Inr results)
      with body True n1 have "loop ct (h + 1) (names @ results) w1 = Some y" by simp
      from IH [OF this] obtain n where "resetSteps ct n (h + 1) (names @ results) w1 = y"
        by blast
      with n1 Inr have "resetSteps ct (Suc n) h names w = y" by auto
      then show ?thesis by blast
    qed
  qed
qed

lemma resetSteps_failures:
  "resetSteps ct n h names w = (r, w') \<Longrightarrow>
     (case r of
        Inl e \<Rightarrow> resetSteps_calls ct n h w \<noteq> [] \<and>
                 failed_calls (resetSteps_calls ct n h w) = [last (resetSteps_calls ct n h w)] \<and>
                 failed (last (resetSteps_calls ct n h w)) = Some e \<and>
                 \<not> is_Get (last (resetSteps_calls ct n h w))
      | Inr ns \<Rightarrow> failed_calls (resetSteps_calls ct n h w) = [])"
proof (induction n arbitrary: h names w)
  case 0
  then show ?case by auto
next
  case (Suc n)
  obtain r1 w1 where n1: "temporal_NodesAt (temporalRepo ct) h w = (r1, w1)"
    by (cases "temporal_NodesAt (temporalRepo ct) h w")
  show ?case
  proof (cases r1)
    case (Inl e)
    with Suc.prems n1 show ?thesis by auto
  next
    case (Inr results)
    with Suc.prems n1 have "resetSteps ct n (h + 1) (names @ results) w1 = (r, w')" by simp
    from Suc.IH [OF this] n1 Inr show ?thesis
      by (cases r) auto
  qed
qed

lemma ResetHeight_failures:
  assumes "ResetHeight fork (recording ct) target (w, []) = Some r"
  shows "(failed_calls (calls_of r) = [] \<or> failed_calls (calls_of r) = [last (calls_of r)]) \<and>
     (case failed_calls (calls_of r) of
        [] \<Rightarrow> height (ct_of r) = target \<and>
               (err_of r = None \<or> err_of r = Some (UnableToRestoreHash target))
      | c # cs \<Rightarrow> err_of r = failed c \<and>
               height (ct_of r) = (if is_Get c then target else height ct))"
proof -
  from assms obtain y where loop: "resetLoop (recording ct) (target + 1) [] (w, []) = Some y"
    by (cases "resetLoop (recording ct) (target + 1) [] (w, [])")
       (simp_all add: ResetHeight_def)
  from resetLoop_Some_steps [OF loop] obtain n where
    n: "resetSteps (recording ct) n (target + 1) [] (w, []) = y" by blast
  obtain r1 w1 where steps: "resetSteps ct n (target + 1) [] w = (r1, w1)"
    by (cases "resetSteps ct n (target + 1) [] w")
  let ?calls = "resetSteps_calls ct n (target + 1) w"
  have y: "y = (r1, w1, ?calls)"
    using n steps by (simp add: resetSteps_recording)
  note fl = resetSteps_failures [OF steps]
  show ?thesis
  proof (cases r1)
    case (Inl e)
    with assms loop y have "r = (Some e, recording ct, w1, ?calls)"
      by (simp add: ResetHeight_def)
    with fl Inl show ?thesis
      by (simp add: calls_of_def err_of_def ct_of_def)
  next
    case (Inr names)
    with fl have nf: "failed_calls ?calls = []" by simp
    obtain r2 w2 where dec: "node_DecrementHeightTo (nodeManager ct) names target w1 = (r2, w2)"
      by (cases "node_DecrementHeightTo (nodeManager ct) names target w1")
    show ?thesis
    proof (cases r2)
      case (Some e)
      with assms loop y Inr dec
      have "r = (Some e, recording ct, w2, ?calls @ [Call_DecrementHeightTo names target (Some e)])"
        by (simp add: ResetHeight_def)
      then show ?thesis
        by (simp add: calls_of_def err_of_def ct_of_def nf)
    next
      case None
      obtain r3 w3 where get: "block_Get (blockRepo ct) target w2 = (r3, w3)"
        by (cases "block_Get (blockRepo ct) target w2")
      show ?thesis
      proof (cases r3)
        case (Inl e)
        with assms loop y Inr dec None get
        have "r = (Some e, recording (ct\<lparr>height := target\<rparr>), w3,
                ?calls @ [Call_DecrementHeightTo names target None, Call_Get target (Inl e)])"
          by (simp add: ResetHeight_def)
        then show ?thesis
          by (simp add: calls_of_def err_of_def ct_of_def nf)
      next
        case hash: (Inr hash)
        from assms loop y Inr dec None get hash
        have "ct_of r = recording (ct\<lparr>height := target\<rparr>) \<and>
              (err_of r = None \<or> err_of r = Some (UnableToRestoreHash target)) \<and>
              (\<exists>names' root. calls_of r = ?calls @ [Call_DecrementHeightTo names target None,
                 Call_Get target (Inr hash), Call_SetRoot hash names',
                 MerkleHash_call fork target root])"
          by (auto simp: ResetHeight_def MerkleHash_recording' Let_def calls_of_def err_of_def
                ct_of_def split: if_splits)
        then show ?thesis
          by (auto simp: nf)
      qed
    qed
  qed
qed

lemma removeDuplicates_set_cong:
  "set xs = set ys \<Longrightarrow> removeDuplicates xs = removeDuplicates ys"
  by (simp add: removeDuplicates_eq)

lemma agree_height_update: "agree ct ct' \<Longrightarrow> agree (ct\<lparr>height := h\<rparr>) (ct'\<lparr>height := h\<rparr>)"
  by (simp add: agree_def)

lemma AppendBlock_agree:
  assumes "agree ct ct'"
  shows "err_of (AppendBlock fork ct w) = err_of (AppendBlock fork ct' w) \<and>
         state_of (AppendBlock fork ct w) = state_of (AppendBlock fork ct' w)"
proof -
  from assms have h: "height ct' = height ct" by (simp add: agree_def)
  have loop: "updateLoop (ct'\<lparr>height := height ct + 1\<rparr>) names un uh w' =
      updateLoop (ct\<lparr>height := height ct + 1\<rparr>) names un uh w'" for names un uh w'
    using assms by (intro updateLoop_same_methods) (simp_all add: agree_def)
  have inc: "same_slices (node_IncrementHeightTo (nodeManager ct) (height ct + 1) w)
               (node_IncrementHeightTo (nodeManager ct') (height ct + 1) w)"
    using assms by (simp add: agree_def)
  have get: "same_names (temporal_NodesAt (temporalRepo ct) (height ct + 1) w')
               (temporal_NodesAt (temporalRepo ct') (height ct + 1) w')" for w'
    using assms by (simp add: agree_def)
  have rest: "temporal_SetNodesAt (temporalRepo ct') = temporal_SetNodesAt (temporalRepo ct)"
    "blockRepo ct' = blockRepo ct" "merkleTrie ct' = merkleTrie ct"
    "node_IterateNames (nodeManager ct') = node_IterateNames (nodeManager ct)"
    using assms by (simp_all add: agree_def)
  show ?thesis
  proof (cases rule: AppendBlock_cases [of ct w])
    case (inc_fail e w1)
    with inc have "node_IncrementHeightTo (nodeManager ct') (height ct + 1) w = (Inl e, w1)"
      by (cases "node_IncrementHeightTo (nodeManager ct') (height ct + 1) w")
         (auto simp: same_slices_def split: sum.splits)
    with inc_fail show ?thesis
      by (simp add: AppendBlock_def h err_of_def state_of_def)
  next
    case (get_fail touched w1 e w2)
    from inc get_fail(1) obtain touched' where
      i': "node_IncrementHeightTo (nodeManager ct') (height ct + 1) w = (Inr touched', w1)"
      by (cases "node_IncrementHeightTo (nodeManager ct') (height ct + 1) w")
         (auto simp: same_slices_def split: sum.splits)
    from get [of w1] get_fail(2)
    have g': "temporal_NodesAt (temporalRepo ct') (height ct + 1) w1 = (Inl e, w2)"
      by (cases "temporal_NodesAt (temporalRepo ct') (height ct + 1) w1")
         (auto simp: same_names_def split: sum.splits)
    from get_fail i' g' show ?thesis
      by (simp add: AppendBlock_def h err_of_def state_of_def)
  next
    case (set_fail touched w1 expirations w2 un uh w3 e w4)
    from inc set_fail(1) obtain touched' where
      i': "node_IncrementHeightTo (nodeManager ct') (height ct + 1) w = (Inr touched', w1)"
      and t': "set (elems touched') = set (elems touched)"
      and n': "(touched' = None) = (touched = None)"
      by (cases "node_IncrementHeightTo (nodeManager ct') (height ct + 1) w")
         (auto simp: same_slices_def split: sum.splits)
    from get [of w1] set_fail(2) obtain expirations' where
      g': "temporal_NodesAt (temporalRepo ct') (height ct + 1) w1 = (Inr expirations', w2)"
      and e': "set expirations' = set expirations"
      by (cases "temporal_NodesAt (temporalRepo ct') (height ct + 1) w1")
         (auto simp: same_names_def split: sum.splits)
    have rd: "removeDuplicates (elems touched') = removeDuplicates (elems touched)"
      "removeDuplicates (removeDuplicates (elems touched) @ expirations') =
         removeDuplicates (removeDuplicates (elems touched) @ expirations)"
      using t' e' by (auto intro: removeDuplicates_set_cong)
    from e' have "(expirations' = []) = (expirations = [])"
      by (metis set_empty)
    with n' rd have sl:
      "removeDuplicates_slice (append_slice (removeDuplicates_slice touched') expirations') =
       removeDuplicates_slice (append_slice (removeDuplicates_slice touched) expirations)"
      by (intro slice_eqI) simp_all
    from set_fail i' g' show ?thesis
      by (simp add: AppendBlock_def h err_of_def state_of_def Let_def loop rd sl rest)
  next
    case (ok touched w1 expirations w2 un uh w3 w4)
    from inc ok(1) obtain touched' where
      i': "node_IncrementHeightTo (nodeManager ct') (height ct + 1) w = (Inr touched', w1)"
      and t': "set (elems touched') = set (elems touched)"
      and n': "(touched' = None) = (touched = None)"
      by (cases "node_IncrementHeightTo (nodeManager ct') (height ct + 1) w")
         (auto simp: same_slices_def split: sum.splits)
    from get [of w1] ok(2) obtain expirations' where
      g': "temporal_NodesAt (temporalRepo ct') (height ct + 1) w1 = (Inr expirations', w2)"
      and e': "set expirations' = set expirations"
      by (cases "temporal_NodesAt (temporalRepo ct') (height ct + 1) w1")
         (auto simp: same_names_def split: sum.splits)
    have rd: "removeDuplicates (elems touched') = removeDuplicates (elems touched)"
      "removeDuplicates (removeDuplicates (elems touched) @ expirations') =
         removeDuplicates (removeDuplicates (elems touched) @ expirations)"
      using t' e' by (auto intro: removeDuplicates_set_cong)
    from e' have "(expirations' = []) = (expirations = [])"
      by (metis set_empty)
    with n' rd have sl:
      "removeDuplicates_slice (append_slice (removeDuplicates_slice touched') expirations') =
       removeDuplicates_slice (append_slice (removeDuplicates_slice touched) expirations)"
      by (intro slice_eqI) simp_all
    from ok i' g' show ?thesis
      by (simp add: AppendBlock_def h err_of_def state_of_def Let_def loop rd sl rest
            updateTrieForHashForkIfNecessary_def MerkleHash_def split: prod.splits)
  qed
qed

lemma triple_eq: "r = (err_of r, ct_of r, state_of r)"
  by (cases r) (simp add: err_of_def ct_of_def state_of_def)

lemma forwardNodeChange_agree:
  "agree ct ct' \<Longrightarrow>
     forwardNodeChange ct' chg w =
       (err_of (forwardNodeChange ct chg w), ct', state_of (forwardNodeChange ct chg w)) \<and>
     ct_of (forwardNodeChange ct chg w) = ct"
  by (simp add: forwardNodeChange_def agree_def ClaimTrie_Height_def err_of_def ct_of_def
        state_of_def split: prod.splits option.splits)

lemma MerkleHash_agree: "agree ct ct' \<Longrightarrow> MerkleHash fork ct' w = MerkleHash fork ct w"
  by (simp add: MerkleHash_def agree_def)

lemma step_agree:
  assumes "agree ct ct'"
  shows "fst (step fork ct x w) = fst (step fork ct' x w) \<and>
         snd (snd (step fork ct x w)) = snd (snd (step fork ct' x w)) \<and>
         agree (fst (snd (step fork ct x w))) (fst (snd (step fork ct' x w)))"
proof (cases x)
  case Op_AppendBlock
  obtain e s where a: "AppendBlock fork ct w = (e, ct\<lparr>height := height ct + 1\<rparr>, s)"
    using triple_eq [of "AppendBlock fork ct w"] by (simp add: ct_of_AppendBlock)
  then have es: "err_of (AppendBlock fork ct w) = e" "state_of (AppendBlock fork ct w) = s"
    by (simp_all add: err_of_def state_of_def)
  have b: "AppendBlock fork ct' w = (e, ct'\<lparr>height := height ct + 1\<rparr>, s)"
    using triple_eq [of "AppendBlock fork ct' w"] AppendBlock_agree [OF assms, of fork w] assms
    by (simp add: ct_of_AppendBlock agree_def es)
  have c: "agree (ct\<lparr>height := height ct + 1\<rparr>) (ct'\<lparr>height := height ct + 1\<rparr>)"
    using assms by (rule agree_height_update)
  show ?thesis
    using c MerkleHash_agree [OF c, of fork s] assms
    by (simp add: Op_AppendBlock a b agree_def split: prod.splits)
next
  case (Op_AddClaim name op cid amt)
  with assms forwardNodeChange_agree [OF assms] show ?thesis
    by (simp add: AddClaim_def split: prod.splits) (metis fst_conv snd_conv triple_eq)
next
  case (Op_UpdateClaim name op amt cid)
  with assms forwardNodeChange_agree [OF assms] show ?thesis
    by (simp add: UpdateClaim_def split: prod.splits) (metis fst_conv snd_conv triple_eq)
next
  case (Op_SpendClaim name op cid)
  with assms forwardNodeChange_agree [OF assms] show ?thesis
    by (simp add: SpendClaim_def split: prod.splits) (metis fst_conv snd_conv triple_eq)
next
  case (Op_AddSupport name op amt cid)
  with assms forwardNodeChange_agree [OF assms] show ?thesis
    by (simp add: AddSupport_def split: prod.splits) (metis fst_conv snd_conv triple_eq)
next
  case (Op_SpendSupport name op cid)
  with assms forwardNodeChange_agree [OF assms] show ?thesis
    by (simp add: SpendSupport_def split: prod.splits) (metis fst_conv snd_conv triple_eq)
qed

lemma agree_example: "agree example_ct example_ct_reordered"
  by (auto simp: agree_def example_ct_reordered_def example_ct_def store_ClaimTrie_def
        same_names_def same_slices_def reordered_def reordered_slice_def store_node_def
        store_temporal_def Let_def
        split: sum.splits prod.splits)

subsection \<open>The model's collaborators under the orchestrator\<close>

lemma store_sel [simp]:
  "nodeManager (store_ClaimTrie nuh root t) = store_node nuh"
  "temporalRepo (store_ClaimTrie nuh root t) = store_temporal"
  "blockRepo (store_ClaimTrie nuh root t) = store_block"
  "merkleTrie (store_ClaimTrie nuh root t) = store_trie root"
  "height (store_ClaimTrie nuh root t) = t"
  "(store_ClaimTrie nuh root t)\<lparr>height := h\<rparr> = store_ClaimTrie nuh root h"
  by (simp_all add: store_ClaimTrie_def)

lemma store_updateLoop:
  "\<exists>un2 uh2. length un2 = length uh2 \<and>
     updateLoop (store_ClaimTrie nuh root h) names un uh s = (un @ un2, uh @ uh2, s)"
proof (induction names arbitrary: un uh)
  case Nil
  show ?case by simp
next
  case (Cons n names)
  let ?nu = "nuh (history s n) (st_height s)"
  show ?case
  proof (cases "?nu \<le>s 0")
    case True
    from Cons.IH [of un uh] True show ?thesis
      by (simp add: store_node_def store_trie_def)
  next
    case False
    from Cons.IH [of "un @ [n]" "uh @ [?nu]"] obtain un2 uh2 where
      "length un2 = length uh2"
      "updateLoop (store_ClaimTrie nuh root h) names (un @ [n]) (uh @ [?nu]) s =
         ((un @ [n]) @ un2, (uh @ [?nu]) @ uh2, s)"
      by blast
    with False show ?thesis
      by (intro exI [of _ "n # un2"] exI [of _ "?nu # uh2"])
         (simp add: store_node_def store_trie_def)
  qed
qed

lemma store_touched_covers: "Name ` set (st_buffered s) \<subseteq> set (store_touched nuh h s)"
  by (auto simp: store_touched_def store_node_def Let_def)

lemma fold_unchanged [simp]: "fold (\<lambda>x w. w) xs w = w"
  by (induction xs) simp_all

lemma store_AppendBlock:
  "\<exists>rest. AppendBlock fork (store_ClaimTrie nuh root t) s =
     (None, store_ClaimTrie nuh root (t + 1),
      s\<lparr>st_blocks :=
           (t + 1, root (fork \<le>s t + 1)
              (filter (\<lambda>c. Height c \<le>s t + 1) (st_changes s @ st_buffered s)) (t + 1)) #
           st_blocks s,
        st_temporal := st_temporal s @
           zip (map (\<lambda>_. t + 1) (removeDuplicates (store_touched nuh (t + 1) s)))
               (removeDuplicates (store_touched nuh (t + 1) s)) @ rest,
        st_changes := st_changes s @ st_buffered s, st_buffered := [], st_height := t + 1\<rparr>)"
proof -
  let ?s1 = "s\<lparr>st_changes := st_changes s @ st_buffered s, st_buffered := [],
               st_height := t + 1\<rparr>"
  let ?tn = "removeDuplicates (store_touched nuh (t + 1) s)"
  have inc: "node_IncrementHeightTo (store_node nuh) (t + 1) s =
      (Inr (Some (store_touched nuh (t + 1) s)), ?s1)"
    by (simp add: store_touched_def store_node_def Let_def)
  obtain ex where get: "temporal_NodesAt store_temporal (t + 1) ?s1 = (Inr ex, ?s1)"
    by (simp add: store_temporal_def)
  from store_updateLoop [of nuh root "t + 1" "removeDuplicates (?tn @ ex)" ?tn
      "map (\<lambda>_. t + 1) ?tn" ?s1]
  obtain un2 uh2 where len: "length un2 = length uh2" and
    loop: "updateLoop (store_ClaimTrie nuh root (t + 1)) (removeDuplicates (?tn @ ex)) ?tn
       (map (\<lambda>_. t + 1) ?tn) ?s1 = (?tn @ un2, map (\<lambda>_. t + 1) ?tn @ uh2, ?s1)"
    by blast
  have z: "zip (map (\<lambda>_. t + 1) ?tn @ uh2) (?tn @ un2) =
      zip (map (\<lambda>_. t + 1) ?tn) ?tn @ zip uh2 un2"
    by simp
  show ?thesis
    apply (rule exI [of _ "zip uh2 un2"])
    apply (simp add: AppendBlock_def inc get loop Let_def z)
    apply (simp add: store_temporal_def updateTrieForHashForkIfNecessary_def store_node_def
        store_trie_def MerkleHash_def store_block_def truncated_log_def Let_def)
    done
qed


lemma zip_const_mem: "x \<in> set xs \<Longrightarrow> (k, x) \<in> set (zip (map (\<lambda>_. k) xs) xs)"
  by (induction xs) auto

lemma word_succ_neq: "(t :: int32) + 1 \<noteq> t"
  by simp

lemma sless_succ: "(t :: int32) \<noteq> MaxInt32 \<Longrightarrow> t <s t + 1"
  by (simp add: word_sless_alt sint_succ)

lemma store_resetLoop_one:
  assumes "t \<noteq> MaxInt32" "t + 1 \<noteq> MaxInt32"
  shows "resetLoop (store_ClaimTrie nuh root (t + 1)) (t + 1) [] s =
     Some (Inr (remdups (map snd (filter (\<lambda>(k, n). k = t + 1) (st_temporal s)))), s)"
proof -
  have "height (store_ClaimTrie nuh root (t + 1)) \<noteq> MaxInt32" using assms by simp
  from resetLoop_steps [OF this, of "t + 1" "[]" s]
  show ?thesis
    by (simp add: store_temporal_def)
qed

lemma store_ResetHeight_one:
  assumes "t \<noteq> MaxInt32" "t + 1 \<noteq> MaxInt32"
    and "map_of (st_blocks s) t = Some hash"
  shows "ResetHeight fork (store_ClaimTrie nuh root (t + 1)) t s =
     Some (if root (fork \<le>s t)
               (truncated_log (s\<lparr>st_changes := filter (survives
                    (remdups (map snd (filter (\<lambda>(k, n). k = t + 1) (st_temporal s)))) t)
                    (st_changes s), st_height := t\<rparr>)) t \<noteq> hash
           then Some (UnableToRestoreHash t) else None,
           store_ClaimTrie nuh root t,
           s\<lparr>st_changes := filter (survives
                 (remdups (map snd (filter (\<lambda>(k, n). k = t + 1) (st_temporal s)))) t)
                 (st_changes s),
             st_buffered := filter (survives
                 (remdups (map snd (filter (\<lambda>(k, n). k = t + 1) (st_temporal s)))) t)
                 (st_buffered s),
             st_height := t\<rparr>)"
  using assms(3)
  by (simp add: ResetHeight_def store_resetLoop_one [OF assms(1,2)] store_node_def
        store_block_def store_trie_def MerkleHash_def Let_def truncated_log_def)

lemma store_resubmit:
  "\<forall>c \<in> set cs. Height c = t + 1 \<Longrightarrow>
     resubmit (store_ClaimTrie nuh root t) cs s = s\<lparr>st_buffered := st_buffered s @ cs\<rparr>"
proof (induction cs arbitrary: s)
  case Nil
  show ?case by (simp add: resubmit_def)
next
  case (Cons c cs)
  have c: "c\<lparr>Height := t + 1\<rparr> = c" using Cons.prems by simp
  have step: "state_of (forwardNodeChange (store_ClaimTrie nuh root t) c s) =
      s\<lparr>st_buffered := st_buffered s @ [c]\<rparr>"
    by (simp add: forwardNodeChange_def ClaimTrie_Height_def store_node_def state_of_def c)
  from Cons.IH [of "s\<lparr>st_buffered := st_buffered s @ [c]\<rparr>"] Cons.prems step
  show ?case
    by (simp add: resubmit_def)
qed

text \<open>Submitting a change and appending a block keep \<open>store_inv\<close>.\<close>

lemma store_inv_submit:
  assumes "store_inv fork root t s"
  shows "store_inv fork root t
    (state_of (forwardNodeChange (store_ClaimTrie nuh root t) chg s))"
  using assms
  by (auto simp: store_inv_def forwardNodeChange_def ClaimTrie_Height_def store_node_def
        state_of_def truncated_log_def)

lemma store_inv_AppendBlock:
  assumes "store_inv fork root t s" and t3: "t + 1 + 1 \<noteq> MaxInt32"
  shows "store_inv fork root (t + 1)
    (state_of (AppendBlock fork (store_ClaimTrie nuh root t) s))"
proof -
  from assms have t1: "t \<noteq> MaxInt32"
    and old: "\<forall>c \<in> set (st_changes s). Height c \<le>s t"
    and new: "\<forall>c \<in> set (st_buffered s). Height c = t + 1"
    by (simp_all add: store_inv_def)
  have le: "Height c \<le>s t + 1" if "c \<in> set (st_changes s @ st_buffered s)" for c
    using that old new sless_succ [OF t1] by (auto simp: word_sle_eq word_sless_alt)
  from store_AppendBlock [of fork nuh root t s] obtain s1 where
    a1: "AppendBlock fork (store_ClaimTrie nuh root t) s =
          (None, store_ClaimTrie nuh root (t + 1), s1)"
    and s1: "st_changes s1 = st_changes s @ st_buffered s" "st_buffered s1 = []"
      "st_height s1 = t + 1"
      "st_blocks s1 = (t + 1, root (fork \<le>s t + 1)
              (filter (\<lambda>c. Height c \<le>s t + 1) (st_changes s @ st_buffered s)) (t + 1)) #
           st_blocks s"
    by auto
  from assms have t2: "t + 1 \<noteq> MaxInt32" by (simp add: store_inv_def)
  show ?thesis
    unfolding a1 state_of_def snd_conv store_inv_def
    using le t2 t3 by (simp add: s1 truncated_log_def)
qed

section \<open>The claims\<close>

text \<open>
  Claim C9, as it holds. For every list of names \<^verbatim>\<open>removeDuplicates\<close> returns a list in
  strictly ascending order of \<^verbatim>\<open>bytes.Compare\<close> (so it is sorted and no two of its
  elements are equal) that has exactly the elements of its input, and its loop never
  reads out of range. Hence in every run of \<^verbatim>\<open>AppendBlock\<close> the names handed to the
  trie, to \<^verbatim>\<open>Update(name, true)\<close> in the order of the calls and in the slice of
  \<^verbatim>\<open>SetRoot\<close>, are sorted and free of duplicates. The names of the temporal batch are
  two lists one after the other: the names \<^verbatim>\<open>IncrementHeightTo\<close> returned, sorted and
  free of duplicates, and then the canonical names that \<^verbatim>\<open>NextUpdateHeightOfNode\<close>
  answered with a height above 0, which go through no \<^verbatim>\<open>removeDuplicates\<close>.
\<close>

theorem removeDuplicates_sorted_unique:
  "sorted_wrt (\<lambda>a b. bytes_Compare a b < 0) (removeDuplicates names) \<and>
   sorted (removeDuplicates names) \<and> distinct (removeDuplicates names) \<and>
   set (removeDuplicates names) = set names \<and>
   removeDuplicates_panics names = Some (removeDuplicates names) \<and>
   (let tr = calls_of (AppendBlock fork (recording ct) (w, []))
    in sorted (updated_names tr) \<and> distinct (updated_names tr) \<and>
       sorted (elems (block_names tr)) \<and> distinct (elems (block_names tr)) \<and>
       sorted (removeDuplicates (touched_names tr)) \<and>
       distinct (removeDuplicates (touched_names tr)) \<and>
       batches tr =
         (if expirations_of tr = [] then []
          else [(removeDuplicates (touched_names tr) @ map fst (scheduled tr),
                 map (\<lambda>_. height ct + 1) (removeDuplicates (touched_names tr)) @
                   map snd (scheduled tr))]))"
proof -
  have strict: "sorted_wrt (<) (removeDuplicates xs)" for xs
    using removeDuplicates_sort by blast
  have less: "(\<lambda>a b. bytes_Compare a b < 0) = (<)"
    by (intro ext) (rule bytes_Compare_less)
  have sd: "sorted (removeDuplicates xs) \<and> distinct (removeDuplicates xs)" for xs
    using strict [of xs] by (simp add: strict_sorted_iff)
  let ?tr = "AppendBlock_calls fork ct w"
  have upd: "sorted (updated_names ?tr) \<and> distinct (updated_names ?tr)"
    using batch_AppendBlock_calls [of fork ct w] sd by (auto split: if_splits)
  have batch: "batches ?tr =
        (if expirations_of ?tr = [] then []
         else [(removeDuplicates (touched_names ?tr) @ map fst (scheduled ?tr),
                map (\<lambda>_. height ct + 1) (removeDuplicates (touched_names ?tr)) @
                  map snd (scheduled ?tr))])"
    using batch_AppendBlock_calls [of fork ct w] by blast
  show ?thesis
    unfolding Let_def calls_of_AppendBlock append_Nil less block_names_AppendBlock_calls
    using strict sd removeDuplicates_sort removeDuplicates_no_panic upd batch by blast
qed

text \<open>
  Claim C9 as stated fails for the temporal batch. Claims on the names \<open>a\<close> and \<open>b\<close> are
  pending on the empty trie and a block is appended: the batch holds \<open>a\<close> and \<open>b\<close> at the
  height 1 and then \<open>a\<close> and \<open>b\<close> again at their next-update height, so its names are
  neither in ascending order nor free of duplicates.
\<close>

theorem temporal_batch_repeats_names:
  "batches (calls_of (AppendBlock example_fork (recording example_ct)
      (state_of (AddClaim example_ct [98] example_op 8 50 example_s0), []))) =
     [([[97], [98], [97], [98]], [1, 1, 11, 11])] \<and>
   \<not> sorted ([[97], [98], [97], [98]] :: name list) \<and>
   \<not> distinct ([[97], [98], [97], [98]] :: name list)"
  by code_simp


text \<open>
  Claim C6. Let neither \<open>target\<close> nor the current height be the largest \<^verbatim>\<open>int32\<close>
  (there \<^verbatim>\<open>height + 1\<close> and \<^verbatim>\<open>h++\<close> wrap around). Then \<^verbatim>\<open>ResetHeight(target)\<close>
  returns, and when it returns no error its calls were exactly these: \<^verbatim>\<open>NodesAt(h)\<close>
  for every height \<open>h\<close> with \<open>target < h \<le> height\<close>, once each and in ascending order;
  \<^verbatim>\<open>DecrementHeightTo\<close> with the concatenation of their results (as a set, the union of
  the name sets) and \<open>target\<close>; \<^verbatim>\<open>blockRepo.Get(target)\<close>; \<^verbatim>\<open>SetRoot\<close> with the
  hash read and with \<^verbatim>\<open>nil\<close> exactly when the height before the call was at or above
  \<^verbatim>\<open>AllClaimsInMerkleForkHeight\<close> and \<open>target\<close> is below it, with the same
  concatenation otherwise; and the Merkle hash. The height of the orchestrator is then
  \<open>target\<close>.
\<close>

theorem ResetHeight_rewinds_with_union:
  assumes "target \<noteq> MaxInt32" and "height ct \<noteq> MaxInt32"
  shows "\<exists>r. ResetHeight fork (recording ct) target (w, []) = Some r \<and>
     (if err_of r = None then
        height (ct_of r) = target \<and>
        (\<exists>rs hash. length rs = length (heights_between target (height ct)) \<and>
           calls_of r =
             map (\<lambda>(h, ns). Call_NodesAt h (Inr ns)) (zip (heights_between target (height ct)) rs) @
             [Call_DecrementHeightTo (concat rs) target None,
              Call_Get target (Inr hash),
              Call_SetRoot hash
                (if fork \<le>s height ct \<and> target <s fork then None else Some (concat rs)),
              MerkleHash_call fork target hash])
      else True) \<and>
     set (heights_between target (height ct)) = {h. target <s h \<and> h \<le>s height ct}"
proof -
  let ?n = "nat (sint (height ct) - sint target)"
  let ?hs = "heights_between target (height ct)"
  have n: "nat (sint (height (recording ct)) + 1 - sint (target + 1)) = ?n"
    using assms(1) by (simp add: sint_succ)
  have len: "length ?hs = ?n" by (simp add: heights_between_def)
  have hs: "?hs = map (\<lambda>i. target + 1 + of_nat i) [0..<?n]"
    using assms(1) by (rule heights_between_iterate)
  have loop: "resetLoop (recording ct) (target + 1) [] (w, []) =
      Some (resetSteps (recording ct) ?n (target + 1) [] (w, []))"
    using resetLoop_steps [of "recording ct" "target + 1" "[]" "(w, [])"] assms(2) n by simp
  obtain r1 w1 where steps: "resetSteps ct ?n (target + 1) [] w = (r1, w1)"
    by (cases "resetSteps ct ?n (target + 1) [] w")
  have loop': "resetLoop (recording ct) (target + 1) [] (w, []) =
      Some (r1, w1, resetSteps_calls ct ?n (target + 1) w)"
    by (simp add: loop resetSteps_recording steps)
  have "\<exists>r. ResetHeight fork (recording ct) target (w, []) = Some r \<and>
     (if err_of r = None then
        height (ct_of r) = target \<and>
        (\<exists>rs hash. length rs = length ?hs \<and>
           calls_of r =
             map (\<lambda>(h, ns). Call_NodesAt h (Inr ns)) (zip ?hs rs) @
             [Call_DecrementHeightTo (concat rs) target None,
              Call_Get target (Inr hash),
              Call_SetRoot hash
                (if fork \<le>s height ct \<and> target <s fork then None else Some (concat rs)),
              MerkleHash_call fork target hash])
      else True)"
  proof (cases r1)
    case (Inl e)
    then show ?thesis by (simp add: ResetHeight_def loop' err_of_def)
  next
    case (Inr names)
    from resetSteps_Inr [OF steps [unfolded Inr]] obtain rs where rs: "length rs = ?n"
      "names = concat rs"
      "resetSteps_calls ct ?n (target + 1) w =
         map (\<lambda>(k, r). Call_NodesAt k (Inr r)) (zip ?hs rs)"
      unfolding hs by auto
    obtain r2 w2 where dec: "node_DecrementHeightTo (nodeManager ct) names target w1 = (r2, w2)"
      by (cases "node_DecrementHeightTo (nodeManager ct) names target w1")
    show ?thesis
    proof (cases r2)
      case (Some e)
      then show ?thesis by (simp add: ResetHeight_def loop' Inr dec err_of_def)
    next
      case None
      obtain r3 w3 where get: "block_Get (blockRepo ct) target w2 = (r3, w3)"
        by (cases "block_Get (blockRepo ct) target w2")
      show ?thesis
      proof (cases r3)
        case (Inl e)
        then show ?thesis by (simp add: ResetHeight_def loop' Inr dec None get err_of_def)
      next
        case hash: (Inr hash)
        let ?names = "if fork \<le>s height ct \<and> target <s fork then None else Some (concat rs)"
        let ?w4 = "trie_SetRoot (merkleTrie ct) hash ?names w3"
        let ?root = "fst (MerkleHash fork (ct\<lparr>height := target\<rparr>) ?w4)"
        let ?calls = "map (\<lambda>(h, ns). Call_NodesAt h (Inr ns)) (zip ?hs rs) @
             [Call_DecrementHeightTo (concat rs) target None,
              Call_Get target (Inr hash), Call_SetRoot hash ?names,
              MerkleHash_call fork target ?root]"
        have res: "ResetHeight fork (recording ct) target (w, []) =
          Some (if ?root \<noteq> hash then Some (UnableToRestoreHash target) else None,
                recording (ct\<lparr>height := target\<rparr>),
                snd (MerkleHash fork (ct\<lparr>height := target\<rparr>) ?w4), ?calls)"
          using dec get
          by (simp add: ResetHeight_def loop' Inr None hash rs(2,3) MerkleHash_recording' Let_def)
        show ?thesis
          unfolding res
          by (cases "?root = hash")
            (auto simp: err_of_def ct_of_def calls_of_def len rs(1) intro!: exI [of _ rs])
      qed
    qed
  qed
  then show ?thesis by (simp add: set_heights_between)
qed

theorem ResetHeight_rewinds_with_union_witness:
  "\<exists>r. ResetHeight example_fork (recording (example_ct\<lparr>height := 3\<rparr>)) 1 (example_s3, []) = Some r \<and>
     err_of r = None \<and> height (ct_of r) = 1 \<and>
     (\<exists>rs hash. length rs = length (heights_between 1 3) \<and>
        calls_of r =
          map (\<lambda>(h, ns). Call_NodesAt h (Inr ns)) (zip (heights_between 1 3) rs) @
          [Call_DecrementHeightTo (concat rs) 1 None, Call_Get 1 (Inr hash),
           Call_SetRoot hash None, MerkleHash_call example_fork 1 hash])"
proof -
  have h1: "(1 :: int32) \<noteq> MaxInt32" by (simp add: MaxInt32_def)
  have h2: "height (example_ct\<lparr>height := 3\<rparr>) \<noteq> MaxInt32" by (simp add: MaxInt32_def)
  have ok: "err_of (the (ResetHeight example_fork (recording (example_ct\<lparr>height := 3\<rparr>)) 1
              (example_s3, []))) = None"
    by code_simp
  have fork: "example_fork \<le>s 3 \<and> 1 <s example_fork" by code_simp
  from ResetHeight_rewinds_with_union [OF h1 h2, of example_fork example_s3] ok fork
  show ?thesis by auto
qed

text \<open>
  Claim C8. Each of \<^verbatim>\<open>AddClaim\<close>, \<^verbatim>\<open>UpdateClaim\<close>, \<^verbatim>\<open>SpendClaim\<close>,
  \<^verbatim>\<open>AddSupport\<close> and \<^verbatim>\<open>SpendSupport\<close> leaves the struct, and so its height, as
  it was, and makes exactly one call: \<^verbatim>\<open>AppendChange\<close> with a change of its type that
  carries the arguments and whose \<^verbatim>\<open>Height\<close> is the current height plus one (in
  \<^verbatim>\<open>int32\<close> arithmetic).
\<close>

theorem submitters_keep_height:
  "ct_of (AddClaim ct name op cid amt w) = ct \<and>
   ct_of (UpdateClaim ct name op amt cid w) = ct \<and>
   ct_of (SpendClaim ct name op cid w) = ct \<and>
   ct_of (AddSupport ct name op amt cid w) = ct \<and>
   ct_of (SpendSupport ct name op cid w) = ct \<and>
   (\<exists>e. calls_of (AddClaim (recording ct) name op cid amt (w, [])) =
      [Call_AppendChange
         \<lparr>Type = AddClaimT, Height = height ct + 1, Name = name, ClaimID = cid,
          OutPoint = op, Amount = amt\<rparr> e]) \<and>
   (\<exists>e. calls_of (UpdateClaim (recording ct) name op amt cid (w, [])) =
      [Call_AppendChange
         \<lparr>Type = UpdateClaimT, Height = height ct + 1, Name = name, ClaimID = cid,
          OutPoint = op, Amount = amt\<rparr> e]) \<and>
   (\<exists>e. calls_of (SpendClaim (recording ct) name op cid (w, [])) =
      [Call_AppendChange
         \<lparr>Type = SpendClaimT, Height = height ct + 1, Name = name, ClaimID = cid,
          OutPoint = op, Amount = 0\<rparr> e]) \<and>
   (\<exists>e. calls_of (AddSupport (recording ct) name op amt cid (w, [])) =
      [Call_AppendChange
         \<lparr>Type = AddSupportT, Height = height ct + 1, Name = name, ClaimID = cid,
          OutPoint = op, Amount = amt\<rparr> e]) \<and>
   (\<exists>e. calls_of (SpendSupport (recording ct) name op cid (w, [])) =
      [Call_AppendChange
         \<lparr>Type = SpendSupportT, Height = height ct + 1, Name = name, ClaimID = cid,
          OutPoint = op, Amount = 0\<rparr> e])"
proof -
  have keep: "ct_of (forwardNodeChange ct chg w) = ct" for chg
    by (simp add: forwardNodeChange_def ct_of_def split: prod.splits option.splits)
  have calls: "\<exists>e. calls_of (forwardNodeChange (recording ct) chg (w, [])) =
      [Call_AppendChange (chg\<lparr>Height := height ct + 1\<rparr>) e]" for chg
    by (simp add: forwardNodeChange_recording calls_of_def split: prod.splits)
  show ?thesis
    using calls [of "zero_Change\<lparr>Type := AddClaimT, Name := name, OutPoint := op, Amount := amt, ClaimID := cid\<rparr>"]
      calls [of "zero_Change\<lparr>Type := UpdateClaimT, Name := name, OutPoint := op, Amount := amt, ClaimID := cid\<rparr>"]
      calls [of "zero_Change\<lparr>Type := SpendClaimT, Name := name, OutPoint := op, ClaimID := cid\<rparr>"]
      calls [of "zero_Change\<lparr>Type := AddSupportT, Name := name, OutPoint := op, Amount := amt, ClaimID := cid\<rparr>"]
      calls [of "zero_Change\<lparr>Type := SpendSupportT, Name := name, OutPoint := op, ClaimID := cid\<rparr>"]
    by (simp add: AddClaim_def UpdateClaim_def SpendClaim_def AddSupport_def SpendSupport_def
          keep zero_Change_def)
qed

text \<open>
  Claim C10. \<^verbatim>\<open>AppendBlock\<close> does not look at what \<^verbatim>\<open>blockRepo.Set\<close> returns:
  with a block repo whose \<^verbatim>\<open>Set\<close> has the same effect and returns any \<open>e\<close>
  instead, \<^verbatim>\<open>AppendBlock\<close> returns the same error and leaves the same state. So there are
  runs that return \<^verbatim>\<open>nil\<close> although the root was not persisted: in the run below
  \<^verbatim>\<open>Set\<close> fails and stores nothing, \<^verbatim>\<open>AppendBlock\<close> returns no error, and the
  block repo has no root for the new height 1.
\<close>

theorem AppendBlock_discards_Set_error:
  "err_of (AppendBlock fork
     (ct\<lparr>blockRepo := (blockRepo ct)\<lparr>block_Set :=
        (\<lambda>h x w. (e, snd (block_Set (blockRepo ct) h x w)))\<rparr>\<rparr>) w) =
     err_of (AppendBlock fork ct w) \<and>
   state_of (AppendBlock fork
     (ct\<lparr>blockRepo := (blockRepo ct)\<lparr>block_Set :=
        (\<lambda>h x w. (e, snd (block_Set (blockRepo ct) h x w)))\<rparr>\<rparr>) w) =
     state_of (AppendBlock fork ct w) \<and>
   err_of (AppendBlock example_fork (recording example_ct_failing_Set) (example_s0, [])) = None \<and>
   filter is_Set
     (calls_of (AppendBlock example_fork (recording example_ct_failing_Set) (example_s0, []))) =
     [Call_Set 1 1 (Some (External ''disk full''))] \<and>
   fst (block_Get store_block 1
     (fst (state_of
        (AppendBlock example_fork (recording example_ct_failing_Set) (example_s0, []))))) =
     Inl (External ''not found'')"
proof -
  have a: "err_of (AppendBlock example_fork (recording example_ct_failing_Set) (example_s0, [])) =
      None"
    by code_simp
  have b: "filter is_Set
     (calls_of (AppendBlock example_fork (recording example_ct_failing_Set) (example_s0, []))) =
     [Call_Set 1 1 (Some (External ''disk full''))]"
    by code_simp
  have c: "fst (block_Get store_block 1
     (fst (state_of
        (AppendBlock example_fork (recording example_ct_failing_Set) (example_s0, []))))) =
     Inl (External ''not found'')"
    by code_simp
  show ?thesis
    unfolding AppendBlock_Set_error_irrelevant
    using a b c by (simp add: err_of_def state_of_def)
qed

text \<open>
  Claim C3, as it holds. In every run of \<^verbatim>\<open>AppendBlock\<close> and in every run of
  \<^verbatim>\<open>ResetHeight\<close> that returns, at most one call of the node manager, the temporal
  repo or \<^verbatim>\<open>blockRepo.Get\<close> fails, and it is the last call of the run: the function
  returns its error (\<^verbatim>\<open>AppendBlock\<close> wraps it) and calls nothing after it. The height
  is not restored: after \<^verbatim>\<open>AppendBlock\<close> it is one more than before in every case; after
  \<^verbatim>\<open>ResetHeight\<close> it is unchanged when \<^verbatim>\<open>NodesAt\<close> or \<^verbatim>\<open>DecrementHeightTo\<close>
  failed and it is \<open>target\<close> when \<^verbatim>\<open>blockRepo.Get\<close> failed.
\<close>

theorem storage_failure_aborts:
  "height (ct_of (AppendBlock fork (recording ct) (w, []))) = height ct + 1 \<and>
   (failed_calls (calls_of (AppendBlock fork (recording ct) (w, []))) = [] \<or>
    failed_calls (calls_of (AppendBlock fork (recording ct) (w, []))) =
      [last (calls_of (AppendBlock fork (recording ct) (w, [])))]) \<and>
   err_of (AppendBlock fork (recording ct) (w, [])) =
     (case failed_calls (calls_of (AppendBlock fork (recording ct) (w, []))) of
        [] \<Rightarrow> None | c # cs \<Rightarrow> wrapped c) \<and>
   (case ResetHeight fork (recording ct) target (w, []) of
      None \<Rightarrow> True
    | Some r \<Rightarrow>
        (failed_calls (calls_of r) = [] \<or> failed_calls (calls_of r) = [last (calls_of r)]) \<and>
        (case failed_calls (calls_of r) of
           [] \<Rightarrow> height (ct_of r) = target \<and>
                  (err_of r = None \<or> err_of r = Some (UnableToRestoreHash target))
         | c # cs \<Rightarrow> err_of r = failed c \<and>
                  height (ct_of r) = (if is_Get c then target else height ct)))"
proof -
  have a: "height (ct_of (AppendBlock fork (recording ct) (w, []))) = height ct + 1"
    by (simp add: ct_of_AppendBlock_recording ct_of_AppendBlock)
  have b: "(case ResetHeight fork (recording ct) target (w, []) of
      None \<Rightarrow> True
    | Some r \<Rightarrow>
        (failed_calls (calls_of r) = [] \<or> failed_calls (calls_of r) = [last (calls_of r)]) \<and>
        (case failed_calls (calls_of r) of
           [] \<Rightarrow> height (ct_of r) = target \<and>
                  (err_of r = None \<or> err_of r = Some (UnableToRestoreHash target))
         | c # cs \<Rightarrow> err_of r = failed c \<and>
                  height (ct_of r) = (if is_Get c then target else height ct)))"
    using ResetHeight_failures [of fork ct target w]
    by (cases "ResetHeight fork (recording ct) target (w, [])") simp_all
  show ?thesis
    unfolding calls_of_AppendBlock err_of_AppendBlock append_Nil
    using a b AppendBlock_failures [of fork ct w]
    unfolding calls_of_AppendBlock err_of_AppendBlock append_Nil
    by blast
qed

text \<open>
  Claim C3 as stated fails: when \<^verbatim>\<open>IncrementHeightTo\<close> fails, \<^verbatim>\<open>AppendBlock\<close>
  returns the error and the height has moved from 0 to 1.
\<close>

theorem AppendBlock_failure_moves_height:
  "err_of (AppendBlock example_fork example_ct_failing_Increment example_s0) =
     Some (Wrap (External ''disk full'') ''node manager increment'') \<and>
   height example_ct_failing_Increment = 0 \<and>
   height (ct_of (AppendBlock example_fork example_ct_failing_Increment example_s0)) = 1"
  by code_simp

text \<open>
  Claim C5, as it holds. \<^verbatim>\<open>New\<close> with a persisted height above 0, once
  \<^verbatim>\<open>blockRepo.Get\<close> and \<^verbatim>\<open>IncrementHeightTo\<close> have succeeded, recomputes the Merkle
  root after \<^verbatim>\<open>SetRoot(hash, nil)\<close> and returns an error exactly when it differs from the
  persisted root; otherwise it returns the struct at that height. With a persisted height
  of 0 or below it returns the struct and checks nothing. \<^verbatim>\<open>ResetHeight(target)\<close>, once
  its loop, \<^verbatim>\<open>DecrementHeightTo\<close> and \<^verbatim>\<open>blockRepo.Get\<close> have succeeded, recomputes
  the root after \<^verbatim>\<open>SetRoot\<close> and returns an error exactly when it differs from the
  persisted root of \<open>target\<close>.
\<close>

theorem root_checked_on_restore:
  "(block_Load br w = (Inr previousHeight, w1) \<longrightarrow> 0 <s previousHeight \<longrightarrow>
    block_Get br previousHeight w1 = (Inr hash, w2) \<longrightarrow>
    node_IncrementHeightTo nm previousHeight w2 = (Inr ns, w3) \<longrightarrow>
    fst (New fork br tp nm tr cl w) =
      (if fst (MerkleHash fork
                 \<lparr>blockRepo = br, temporalRepo = tp, nodeManager = nm, merkleTrie = tr,
                  height = previousHeight, cleanups = cl\<rparr>
                 (trie_SetRoot tr hash None w3)) = hash
       then Inr \<lparr>blockRepo = br, temporalRepo = tp, nodeManager = nm, merkleTrie = tr,
                 height = previousHeight, cleanups = cl\<rparr>
       else Inl (UnableToRestoreClaimHash hash previousHeight))) \<and>
   (block_Load br w = (Inr previousHeight, w1) \<longrightarrow> \<not> 0 <s previousHeight \<longrightarrow>
    New fork br tp nm tr cl w =
      (Inr \<lparr>blockRepo = br, temporalRepo = tp, nodeManager = nm, merkleTrie = tr,
             height = previousHeight, cleanups = cl\<rparr>, w1)) \<and>
   (resetLoop ct (target + 1) [] w = Some (Inr names, w1') \<longrightarrow>
    node_DecrementHeightTo (nodeManager ct) names target w1' = (None, w2') \<longrightarrow>
    block_Get (blockRepo ct) target w2' = (Inr hash', w3') \<longrightarrow>
    (\<exists>r. ResetHeight fork ct target w = Some r \<and>
       err_of r =
         (if fst (MerkleHash fork (ct\<lparr>height := target\<rparr>)
                    (trie_SetRoot (merkleTrie ct) hash'
                       (if fork \<le>s height ct \<and> target <s fork then None else Some names)
                       w3')) = hash'
          then None else Some (UnableToRestoreHash target))))"
  by (auto simp: New_def ResetHeight_def Let_def err_of_def split: prod.splits)

theorem root_checked_on_restore_witness:
  "fst (New example_fork store_block store_temporal (store_node example_nuh)
          (store_trie example_root) [] example_s1) = Inr (example_ct\<lparr>height := 1\<rparr>) \<and>
   New example_fork store_block store_temporal (store_node example_nuh)
     (store_trie example_root) [] empty_store = (Inr example_ct, empty_store) \<and>
   (\<exists>r. ResetHeight example_fork (example_ct\<lparr>height := 3\<rparr>) 1 example_s3 = Some r \<and>
      err_of r = None)"
proof -
  have n1: "block_Load store_block example_s1 = (Inr 1, example_s1)" by code_simp
  have n2: "(0 :: int32) <s 1" by (simp add: word_sless_alt)
  have n3: "block_Get store_block 1 example_s1 = (Inr 1, example_s1)" by code_simp
  have n4: "node_IncrementHeightTo (store_node example_nuh) 1 example_s1 = (Inr (Some []), example_s1)"
    by code_simp
  have n5: "fst (MerkleHash example_fork
                 \<lparr>blockRepo = store_block, temporalRepo = store_temporal,
                  nodeManager = store_node example_nuh, merkleTrie = store_trie example_root,
                  height = 1, cleanups = []\<rparr>
                 (trie_SetRoot (store_trie example_root) 1 None example_s1)) = 1"
    by code_simp
  have ct1: "\<lparr>blockRepo = store_block, temporalRepo = store_temporal,
        nodeManager = store_node example_nuh, merkleTrie = store_trie example_root,
        height = 1, cleanups = []\<rparr> = example_ct\<lparr>height := 1\<rparr>"
    by (simp add: example_ct_def store_ClaimTrie_def)
  have a: "fst (New example_fork store_block store_temporal (store_node example_nuh)
          (store_trie example_root) [] example_s1) = Inr (example_ct\<lparr>height := 1\<rparr>)"
    using root_checked_on_restore
      [where br = store_block and w = example_s1 and previousHeight = 1 and ?w1.0 = example_s1
        and hash = 1 and ?w2.0 = example_s1 and nm = "store_node example_nuh" and ns = "Some []"
        and ?w3.0 = example_s1 and fork = example_fork and tp = store_temporal
        and tr = "store_trie example_root" and cl = "[]"]
      n1 n2 n3 n4 n5 ct1
    by simp
  have z1: "block_Load store_block empty_store = (Inr 0, empty_store)" by code_simp
  have z2: "\<not> (0 :: int32) <s 0" by (simp add: word_sless_alt)
  have ct0: "\<lparr>blockRepo = store_block, temporalRepo = store_temporal,
        nodeManager = store_node example_nuh, merkleTrie = store_trie example_root,
        height = 0, cleanups = []\<rparr> = example_ct"
    by (simp add: example_ct_def store_ClaimTrie_def)
  have b: "New example_fork store_block store_temporal (store_node example_nuh)
     (store_trie example_root) [] empty_store = (Inr example_ct, empty_store)"
    using root_checked_on_restore
      [where br = store_block and w = empty_store and previousHeight = 0
        and ?w1.0 = empty_store and nm = "store_node example_nuh" and fork = example_fork
        and tp = store_temporal and tr = "store_trie example_root" and cl = "[]"]
      z1 z2 ct0
    by simp
  let ?ct = "example_ct\<lparr>height := 3\<rparr>"
  let ?w2 = "snd (node_DecrementHeightTo (nodeManager ?ct) [] 1 example_s3)"
  have r1: "resetLoop ?ct (1 + 1) [] example_s3 = Some (Inr [], example_s3)" by code_simp
  have r2: "node_DecrementHeightTo (nodeManager ?ct) [] 1 example_s3 = (None, ?w2)"
    by code_simp
  have r3: "block_Get (blockRepo ?ct) 1 ?w2 = (Inr 1, ?w2)" by code_simp
  have r4: "fst (MerkleHash example_fork (?ct\<lparr>height := 1\<rparr>)
                    (trie_SetRoot (merkleTrie ?ct) 1
                       (if example_fork \<le>s height ?ct \<and> 1 <s example_fork then None
                        else Some [])
                       ?w2)) = 1"
    by code_simp
  have c: "\<exists>r. ResetHeight example_fork ?ct 1 example_s3 = Some r \<and> err_of r = None"
    using root_checked_on_restore
      [where ct = ?ct and target = 1 and w = example_s3 and names = "[]"
        and ?w1' = example_s3 and ?w2' = ?w2 and hash' = 1 and ?w3' = ?w2
        and fork = example_fork]
      r1 r2 r3 r4
    by simp
  from a b c show ?thesis by blast
qed

text \<open>
  Claim C5 as stated fails for a persisted height that is not 0 but negative: the block
  repo holds the root 77 for the height -1, \<^verbatim>\<open>New\<close> returns the struct with no error,
  and the Merkle root of what it returns is 0.
\<close>

theorem New_skips_check_below_one:
  "fst (block_Load store_block example_persisted_negative) = Inr (- 1) \<and>
   fst (block_Get store_block (- 1) example_persisted_negative) = Inr 77 \<and>
   fst (New example_fork store_block store_temporal (store_node example_nuh)
          (store_trie example_root) [] example_persisted_negative) =
     Inr (example_ct\<lparr>height := - 1\<rparr>) \<and>
   fst (MerkleHash example_fork (example_ct\<lparr>height := - 1\<rparr>)
          (snd (New example_fork store_block store_temporal (store_node example_nuh)
                  (store_trie example_root) [] example_persisted_negative))) = 0"
  by (simp add: New_def example_persisted_negative_def store_block_def empty_store_def
        example_ct_def store_ClaimTrie_def word_sless_alt MerkleHash_def word_sle_eq
        example_fork_def store_trie_def example_root_def truncated_log_def)

text \<open>
  Claim C4, as it holds. A run of \<^verbatim>\<open>AppendBlock\<close> that gets past its two fetches
  hands the temporal repo exactly one batch: every name that \<^verbatim>\<open>IncrementHeightTo\<close>
  returned, at the new height (whatever touched the name: line 226 logs it for rollback),
  followed by the canonical name and the next-update height that
  \<^verbatim>\<open>NextUpdateHeightOfNode\<close> answered, for every answer with a height above 0. The names
  it asks about are the names it updates in the trie: the names touched and the names the
  temporal repo listed for the new height, sorted and without duplicates. No other run
  hands over a batch.
\<close>

theorem AppendBlock_temporal_batch:
  "(let tr = calls_of (AppendBlock fork (recording ct) (w, []))
    in batches tr =
         (if expirations_of tr = [] then []
          else [(removeDuplicates (touched_names tr) @ map fst (scheduled tr),
                 map (\<lambda>_. height ct + 1) (removeDuplicates (touched_names tr)) @
                   map snd (scheduled tr))]) \<and>
       asked tr = updated_names tr \<and>
       updated_names tr =
         (if expirations_of tr = [] then []
          else removeDuplicates (touched_names tr @ concat (expirations_of tr))))"
  unfolding Let_def calls_of_AppendBlock append_Nil
  by (rule batch_AppendBlock_calls)

text \<open>
  Claim C4 as stated fails. A spend of a claim that does not exist is submitted on an empty
  trie and a block is appended: the name is touched, so it is recorded at height 1 and the
  temporal repo lists it there; the node manager answers 0 for it, then and afterwards: no
  activation, expiration or takeover of that node is due at any height.
\<close>

theorem touched_name_listed_without_schedule:
  "calls_of (AppendBlock example_fork (recording example_ct) (example_spend, [])) =
     [Call_IncrementHeightTo 1 (Inr (Some [[97]])), Call_NodesAt 1 (Inr []),
      Call_Update [97] True, Call_NextUpdateHeightOfNode [97] ([97], 0),
      Call_SetNodesAt [[97]] [1] None, Call_MerkleHash 1, Call_Set 1 1 None] \<and>
   fst (temporal_NodesAt store_temporal 1
          (fst (state_of (AppendBlock example_fork (recording example_ct) (example_spend, []))))) =
     Inr [[97]] \<and>
   fst (node_NextUpdateHeightOfNode (store_node example_nuh) [97]
          (fst (state_of (AppendBlock example_fork (recording example_ct) (example_spend, []))))) =
     ([97], 0)"
  by code_simp

text \<open>
  Claim C1. What a caller observes of a sequence of change submissions and
  \<^verbatim>\<open>AppendBlock\<close> calls (every returned error, and the height and the Merkle root after
  every block) is the same for two structs at the same height that start from the same
  state and whose collaborators do the same, even when the names that
  \<^verbatim>\<open>IncrementHeightTo\<close> and \<^verbatim>\<open>NodesAt\<close> return come in another order or repeated:
  the orchestrator sorts them and drops the duplicates before it uses them. (A slice
  that \<^verbatim>\<open>IncrementHeightTo\<close> returns as \<^verbatim>\<open>nil\<close> is \<^verbatim>\<open>nil\<close> for both structs:
  \<^verbatim>\<open>SetRoot\<close> at line 254 can be handed \<^verbatim>\<open>nil\<close>.) In particular two instances with
  the same collaborators produce the same roots at every height.
\<close>

theorem roots_are_determined:
  "agree ct ct' \<Longrightarrow> run fork ct ops w = run fork ct' ops w"
proof (induction ops arbitrary: ct ct' w)
  case Nil
  show ?case by simp
next
  case (Cons x xs)
  from step_agree [OF Cons.prems, of fork x w] Cons.IH show ?case
    by (auto split: prod.splits)
qed

theorem roots_are_determined_witness:
  "run example_fork example_ct_reordered example_ops empty_store =
     run example_fork example_ct example_ops empty_store \<and>
   run example_fork example_ct example_ops empty_store =
     [Submitted None, Submitted None, Appended None 1 2,
      Submitted None, Appended None 2 3, Appended None 3 1003] \<and>
   fst (node_IncrementHeightTo (nodeManager example_ct) 1
          (snd (snd (step example_fork example_ct (Op_AddClaim [97] example_op 7 100)
            (snd (snd (step example_fork example_ct (Op_AddClaim [98] example_op 8 50) empty_store))))))) =
     Inr (Some [[97], [98]]) \<and>
   fst (node_IncrementHeightTo (nodeManager example_ct_reordered) 1
          (snd (snd (step example_fork example_ct (Op_AddClaim [97] example_op 7 100)
            (snd (snd (step example_fork example_ct (Op_AddClaim [98] example_op 8 50) empty_store))))))) =
     Inr (Some [[98], [97], [97], [98]])"
proof -
  have a: "run example_fork example_ct example_ops empty_store =
     [Submitted None, Submitted None, Appended None 1 2,
      Submitted None, Appended None 2 3, Appended None 3 1003]"
    by code_simp
  have b: "fst (node_IncrementHeightTo (nodeManager example_ct) 1
          (snd (snd (step example_fork example_ct (Op_AddClaim [97] example_op 7 100)
            (snd (snd (step example_fork example_ct (Op_AddClaim [98] example_op 8 50) empty_store))))))) =
     Inr (Some [[97], [98]])"
    by code_simp
  have c: "fst (node_IncrementHeightTo (nodeManager example_ct_reordered) 1
          (snd (snd (step example_fork example_ct (Op_AddClaim [97] example_op 7 100)
            (snd (snd (step example_fork example_ct (Op_AddClaim [98] example_op 8 50) empty_store))))))) =
     Inr (Some [[98], [97], [97], [98]])"
    by code_simp
  from roots_are_determined [OF agree_example, of example_fork example_ops empty_store] a b c
  show ?thesis by simp
qed

text \<open>
  Claim C2, with the collaborators as the specification describes them. From a state
  between two blocks at the height \<open>t\<close> (\<open>store_inv\<close>), \<^verbatim>\<open>AppendBlock\<close> succeeds and
  \<^verbatim>\<open>ResetHeight\<close> to \<open>t\<close> after it succeeds and leaves the height \<open>t\<close>. When the changes
  of the block \<open>t + 1\<close> are submitted again, the second \<^verbatim>\<open>AppendBlock\<close> succeeds with
  the Merkle root of the first one; in particular when the block had no changes. With
  nothing submitted again, the second \<^verbatim>\<open>AppendBlock\<close> gives the root of the change log
  without the changes of the block \<open>t + 1\<close>.
\<close>

theorem round_trip_after_resubmission:
  assumes "store_inv fork root t s"
  shows "err_of (AppendBlock fork (store_ClaimTrie nuh root t) s) = None \<and>
    (\<exists>r. ResetHeight fork (ct_of (AppendBlock fork (store_ClaimTrie nuh root t) s)) t
            (state_of (AppendBlock fork (store_ClaimTrie nuh root t) s)) = Some r \<and>
       err_of r = None \<and> height (ct_of r) = t \<and>
       err_of (AppendBlock fork (ct_of r) (resubmit (ct_of r) (st_buffered s) (state_of r))) =
         None \<and>
       fst (MerkleHash fork
              (ct_of (AppendBlock fork (ct_of r)
                        (resubmit (ct_of r) (st_buffered s) (state_of r))))
              (state_of (AppendBlock fork (ct_of r)
                        (resubmit (ct_of r) (st_buffered s) (state_of r))))) =
       fst (MerkleHash fork (ct_of (AppendBlock fork (store_ClaimTrie nuh root t) s))
              (state_of (AppendBlock fork (store_ClaimTrie nuh root t) s))) \<and>
       fst (MerkleHash fork (ct_of (AppendBlock fork (ct_of r) (state_of r)))
              (state_of (AppendBlock fork (ct_of r) (state_of r)))) =
       root (fork \<le>s t + 1) (filter (\<lambda>c. Height c \<le>s t + 1) (st_changes s)) (t + 1))"
proof -
  let ?ct = "store_ClaimTrie nuh root"
  let ?C = "st_changes s" and ?B = "st_buffered s"
  let ?tn = "removeDuplicates (store_touched nuh (t + 1) s)"
  from assms have ht: "st_height s = t" and t1: "t \<noteq> MaxInt32" and t2: "t + 1 \<noteq> MaxInt32"
    and old: "\<forall>c \<in> set ?C. Height c \<le>s t" and new: "\<forall>c \<in> set ?B. Height c = t + 1"
    and persisted: "map_of (st_blocks s) t = Some (root (fork \<le>s t) (truncated_log s) t)"
    by (simp_all add: store_inv_def)
  from store_AppendBlock [of fork nuh root t s] obtain s1 where
    a1: "AppendBlock fork (?ct t) s = (None, ?ct (t + 1), s1)"
    and s1: "st_changes s1 = ?C @ ?B" "st_buffered s1 = []" "st_height s1 = t + 1"
      "\<exists>rest. st_temporal s1 = st_temporal s @ zip (map (\<lambda>_. t + 1) ?tn) ?tn @ rest"
      "\<exists>r1. st_blocks s1 = (t + 1, r1) # st_blocks s"
    by auto
  define names where
    "names = remdups (map snd (filter (\<lambda>(k, n). k = t + 1) (st_temporal s1)))"
  have listed: "Name c \<in> set names" if "c \<in> set ?B" for c
  proof -
    from that store_touched_covers [of s nuh "t + 1"]
    have "Name c \<in> set ?tn" by (auto simp: removeDuplicates_sort)
    then have "(t + 1, Name c) \<in> set (zip (map (\<lambda>_. t + 1) ?tn) ?tn)"
      by (rule zip_const_mem)
    with s1(4) have "(t + 1, Name c) \<in> set (st_temporal s1)" by auto
    then show ?thesis unfolding names_def by force
  qed
  have dropB: "filter (survives names t) ?B = []"
    using new listed sless_succ [OF t1] by (auto simp: survives_def filter_empty_conv)
  have keepC: "filter (survives names t) ?C = ?C"
    using old by (auto simp: survives_def word_sle_eq word_sless_alt intro!: filter_True)
  have changes2: "filter (survives names t) (st_changes s1) = ?C"
    by (simp add: s1(1) dropB keepC)
  have buffered2: "filter (survives names t) (st_buffered s1) = []"
    by (simp add: s1(2))
  have blocks: "map_of (st_blocks s1) t = Some (root (fork \<le>s t) (truncated_log s) t)"
    using persisted s1(5) by auto
  define s2 where "s2 = s1\<lparr>st_changes := ?C, st_buffered := [], st_height := t\<rparr>"
  have log2: "truncated_log (s1\<lparr>st_changes := ?C, st_height := t\<rparr>) = truncated_log s"
    using ht by (simp add: truncated_log_def)
  have r: "ResetHeight fork (?ct (t + 1)) t s1 = Some (None, ?ct t, s2)"
    using store_ResetHeight_one [OF t1 t2 blocks, of fork nuh root]
    unfolding names_def [symmetric] changes2 buffered2 log2 s2_def by simp
  have s3: "resubmit (?ct t) ?B s2 = s2\<lparr>st_buffered := ?B\<rparr>"
    using store_resubmit [OF new, of nuh root s2] by (simp add: s2_def)
  from store_AppendBlock [of fork nuh root t "s2\<lparr>st_buffered := ?B\<rparr>"] obtain rest2 where
    a2: "AppendBlock fork (?ct t) (s2\<lparr>st_buffered := ?B\<rparr>) = (None, ?ct (t + 1), rest2)"
      "st_changes rest2 = ?C @ ?B" "st_height rest2 = t + 1"
    by (auto simp: s2_def)
  from store_AppendBlock [of fork nuh root t s2] obtain rest3 where
    a3: "AppendBlock fork (?ct t) s2 = (None, ?ct (t + 1), rest3)"
      "st_changes rest3 = ?C" "st_height rest3 = t + 1"
    by (auto simp: s2_def)
  have m1: "fst (MerkleHash fork (?ct (t + 1)) s1) =
      root (fork \<le>s t + 1) (filter (\<lambda>c. Height c \<le>s t + 1) (?C @ ?B)) (t + 1)"
    using s1(1,3) by (simp add: MerkleHash_def store_trie_def truncated_log_def)
  have m2: "fst (MerkleHash fork (?ct (t + 1)) rest2) =
      root (fork \<le>s t + 1) (filter (\<lambda>c. Height c \<le>s t + 1) (?C @ ?B)) (t + 1)"
    using a2(2,3) by (simp add: MerkleHash_def store_trie_def truncated_log_def)
  have m3: "fst (MerkleHash fork (?ct (t + 1)) rest3) =
      root (fork \<le>s t + 1) (filter (\<lambda>c. Height c \<le>s t + 1) ?C) (t + 1)"
    using a3(2,3) by (simp add: MerkleHash_def store_trie_def truncated_log_def)
  show ?thesis
    unfolding a1 err_of_def ct_of_def state_of_def fst_conv snd_conv
    by (rule conjI [OF refl], rule exI [of _ "(None, ?ct t, s2)"])
       (simp add: r s3 a2(1) a3(1) m1 m2 m3)
qed

theorem round_trip_after_resubmission_witness:
  "store_inv example_fork example_root 1 example_pending \<and>
   (\<exists>r. ResetHeight example_fork
           (ct_of (AppendBlock example_fork (store_ClaimTrie example_nuh example_root 1)
                     example_pending)) 1
           (state_of (AppendBlock example_fork (store_ClaimTrie example_nuh example_root 1)
                     example_pending)) = Some r \<and>
      fst (MerkleHash example_fork
             (ct_of (AppendBlock example_fork (ct_of r)
                       (resubmit (ct_of r) (st_buffered example_pending) (state_of r))))
             (state_of (AppendBlock example_fork (ct_of r)
                       (resubmit (ct_of r) (st_buffered example_pending) (state_of r))))) =
      fst (MerkleHash example_fork
             (ct_of (AppendBlock example_fork (store_ClaimTrie example_nuh example_root 1)
                       example_pending))
             (state_of (AppendBlock example_fork
                       (store_ClaimTrie example_nuh example_root 1) example_pending))))"
proof -
  have inv: "store_inv example_fork example_root 1 example_pending"
    by code_simp
  from round_trip_after_resubmission [OF inv, of example_nuh] inv show ?thesis
    by blast
qed

text \<open>
  Claim C2 as stated fails on the model: with a claim pending at the height 1, the first
  \<^verbatim>\<open>AppendBlock\<close> gives the root 2 at the height 2, \<^verbatim>\<open>ResetHeight\<close> to 1 succeeds and
  drops the claim, and \<^verbatim>\<open>AppendBlock\<close> again gives the root 1 at the height 2.
\<close>

theorem round_trip_loses_pending_changes:
  "err_of example_first = None \<and> height (ct_of example_first) = 2 \<and>
   fst (MerkleHash example_fork (ct_of example_first) (state_of example_first)) = 2 \<and>
   (case example_reset of
      None \<Rightarrow> False
    | Some r \<Rightarrow>
        err_of r = None \<and> height (ct_of r) = 1 \<and>
        err_of (AppendBlock example_fork (ct_of r) (state_of r)) = None \<and>
        height (ct_of (AppendBlock example_fork (ct_of r) (state_of r))) = 2 \<and>
        fst (MerkleHash example_fork
               (ct_of (AppendBlock example_fork (ct_of r) (state_of r)))
               (state_of (AppendBlock example_fork (ct_of r) (state_of r)))) = 1)"
  by code_simp

end
